theory Spec2Isabelle
  imports Main "HOL-Library.Multiset"
begin

section \<open>JavaScript values and objects\<close>

text \<open>
  The variable bundles of the plugin are plain objects (\<open>Record<string, unknown>\<close>) that
  travel to the instance as JSON text. A value of such an object is JSON data or
  \<open>undefined\<close>; a property whose value is \<open>undefined\<close> is still an own property (a
  spread copies it) but \<open>JSON.stringify\<close> leaves it out. Numbers are kept as integers:
  no claim computes with them.
\<close>

datatype json =
    JNull
  | JBool bool
  | JNum int
  | JStr string
  | JArr "json list"
  | JObj "(string \<times> json) list"

datatype jsval = Undefined | Val json | Builtin | ObjectPrototype

type_synonym jsobject = "string \<rightharpoonup> jsval"

text \<open>
  A value is \<open>undefined\<close>, JSON data, a built-in function (such as the methods every
  ordinary object inherits from \<open>Object.prototype\<close>) or the object \<open>Object.prototype\<close>
  itself. An object is given by its own properties.
\<close>

text \<open>The parsed content of a JSON text that holds an object.\<close>

type_synonym jsondoc = "string \<rightharpoonup> json"

text \<open>\<open>{...a, ...b}\<close>: the own properties of \<open>a\<close>, then those of \<open>b\<close>; the later wins.\<close>

definition spread :: "jsobject \<Rightarrow> jsobject \<Rightarrow> jsobject" where
  "spread a b = a ++ b"

text \<open>
  The property names of \<open>Object.prototype\<close>: data properties that hold functions, and
  the accessor \<open>__proto__\<close>.
\<close>

definition object_prototype_keys :: "string list" where
  "object_prototype_keys =
     [''constructor'', ''__defineGetter__'', ''__defineSetter__'', ''hasOwnProperty'',
      ''__lookupGetter__'', ''__lookupSetter__'', ''isPrototypeOf'', ''propertyIsEnumerable'',
      ''toString'', ''valueOf'', ''toLocaleString'', ''__proto__'']"

text \<open>
  \<open>obj[key]\<close> for an object whose prototype is \<open>Object.prototype\<close>: the own property if
  there is one, else what the prototype provides under that name (the getter of
  \<open>__proto__\<close> returns the prototype), else \<open>undefined\<close>.
\<close>

definition get_property :: "jsobject \<Rightarrow> string \<Rightarrow> jsval" where
  "get_property obj key =
     (case obj key of
        Some v \<Rightarrow> v
      | None \<Rightarrow> if key = ''__proto__'' then ObjectPrototype
               else if key \<in> set object_prototype_keys then Builtin
               else Undefined)"

text \<open>\<open>obj[key] !== undefined\<close>.\<close>

definition defined_at :: "jsobject \<Rightarrow> string \<Rightarrow> bool" where
  "defined_at obj key = (get_property obj key \<noteq> Undefined)"

text \<open>
  \<open>obj[key] = v\<close> on an object of JSON data whose prototype chain holds data of this kind
  and the built-in prototypes only. The object comes with a flag that says whether an
  assignment to \<open>__proto__\<close> still reaches the setter of \<open>Object.prototype\<close> through its
  prototype chain; a fresh object literal has it. An own property is overwritten.
  Otherwise the name \<open>__proto__\<close> calls that setter, which creates no property: it
  replaces the prototype when \<open>v\<close> is \<open>null\<close> or an object and ignores any other value.
  The setter is out of reach afterwards when the new prototype is \<open>null\<close> or an object
  with an own property \<open>__proto__\<close>. Every other name becomes an own property.
\<close>

definition setter_reachable_after :: "jsval \<Rightarrow> bool" where
  "setter_reachable_after v =
     (case v of
        Val JNull \<Rightarrow> False
      | Val (JObj props) \<Rightarrow> ''__proto__'' \<notin> set (map fst props)
      | _ \<Rightarrow> True)"

definition set_property :: "jsobject \<times> bool \<Rightarrow> string \<Rightarrow> jsval \<Rightarrow> jsobject \<times> bool" where
  "set_property ob key v =
     (if fst ob key = None \<and> key = ''__proto__'' \<and> snd ob
      then (fst ob, setter_reachable_after v)
      else ((fst ob)(key \<mapsto> v), snd ob))"

text \<open>
  \<open>JSON.stringify(obj, null, 2)\<close> of a top-level object, as the document it denotes:
  own properties only, without those that are \<open>undefined\<close> or functions;
  \<open>Object.prototype\<close> has no enumerable property and is written as \<open>{}\<close>.
\<close>

definition JSON_stringify :: "jsobject \<Rightarrow> jsondoc" where
  "JSON_stringify obj =
     (\<lambda>k. case obj k of None \<Rightarrow> None | Some Undefined \<Rightarrow> None | Some Builtin \<Rightarrow> None
          | Some ObjectPrototype \<Rightarrow> Some (JObj []) | Some (Val v) \<Rightarrow> Some v)"

text \<open>\<open>JSON.parse(text)\<close> of such a document.\<close>

definition JSON_parse :: "jsondoc \<Rightarrow> jsobject" where
  "JSON_parse doc = (\<lambda>k. map_option Val (doc k))"

section \<open>Feature state (lib/state.ts, lib/features.ts)\<close>

text \<open>\<open>FeatureState\<close> of lib/types.ts; the two dates play no part in any operation here.\<close>

record FeatureState =
  featureName :: string
  vars :: jsobject

text \<open>The fields of a \<open>FeatureDefinition\<close> that the variable handling reads.\<close>

record FeatureDefinition =
  defFeatureName :: string
  defaultVars :: "jsobject option"
  secretVars :: "string list option"

text \<open>
  \<open>deployFeature\<close>, lines 157 to 172: the state of the named feature is looked up among the
  features read from the instance, and the variables are merged
  \<open>{...feature.defaultVars, ...(instanceFeatureState ? instanceFeatureState.vars : {}), ...vars}\<close>.
  Spreading an absent \<open>defaultVars\<close> adds nothing.
\<close>

definition find_feature :: "FeatureState list \<Rightarrow> string \<Rightarrow> FeatureState option" where
  "find_feature fs n = List.find (\<lambda>f. featureName f = n) fs"

definition deployFeature_featureVars ::
  "FeatureDefinition \<Rightarrow> FeatureState option \<Rightarrow> jsobject \<Rightarrow> jsobject" where
  "deployFeature_featureVars feature instanceFeatureState callerVars =
     spread
       (spread (case defaultVars feature of None \<Rightarrow> Map.empty | Some d \<Rightarrow> d)
               (case instanceFeatureState of None \<Rightarrow> Map.empty | Some fs \<Rightarrow> vars fs))
       callerVars"

subsection \<open>The remote feature store\<close>

text \<open>
  The outcome of a Data API call: success, or the status of the failure as far as the code
  tells statuses apart (403, 404, anything else).
\<close>

datatype http = Ok | Forbidden | NotFound | OtherStatus

text \<open>
  A \<open>B2CToolsFeature\<close> custom object. The attributes \<open>c_vars\<close> and \<open>c_secretVars\<close> hold
  JSON text; \<open>None\<close> stands for an attribute that is unset or the empty string, \<open>Some d\<close>
  for the text of the object \<open>d\<close>.
\<close>

record custom_object =
  key_value_string :: string
  c_vars :: "jsondoc option"
  c_secretVars :: "jsondoc option"

text \<open>
  What the instance holds for features: how it answers the preference read, the search
  and the calls on \<open>/custom_objects/B2CToolsFeature/{key}\<close>, and the custom objects in
  the order the search returns them.
\<close>

record feature_remote =
  prefs_status :: http
  search_status :: http
  object_status :: http
  c_b2cToolsFeaturesVersion :: "int option"
  c_b2cToolsFeaturesBootstrappedClientIDs :: "string \<rightharpoonup> int option"
  objects :: "custom_object list"

record InstanceFeatureState =
  b2cToolsFeaturesVersion :: "int option"
  b2cToolsFeaturesBootstrappedClientIDs :: "string \<rightharpoonup> int option"
  features :: "FeatureState list"

datatype feature_error = FeatureReadFailed | FeatureSearchFailed

text \<open>\<open>featureStateFromCustomObject\<close>, lib/state.ts lines 92 to 107.\<close>

definition featureStateFromCustomObject :: "custom_object \<Rightarrow> FeatureState" where
  "featureStateFromCustomObject obj =
     (let vars0 = Map.empty;
          vars1 = (case c_vars obj of None \<Rightarrow> vars0 | Some d \<Rightarrow> spread Map.empty (JSON_parse d));
          vars2 = (case c_secretVars obj of None \<Rightarrow> vars1 | Some d \<Rightarrow> spread vars1 (JSON_parse d))
      in \<lparr>featureName = key_value_string obj, vars = vars2\<rparr>)"

text \<open>
  \<open>getInstanceFeatureState\<close>, lib/state.ts lines 113 to 171: \<open>Inr None\<close> is the \<open>null\<close>
  returned on 403 and 404, \<open>Inl\<close> the error thrown on any other failure.
\<close>

definition getInstanceFeatureState :: "feature_remote \<Rightarrow> feature_error + InstanceFeatureState option" where
  "getInstanceFeatureState r =
     (case prefs_status r of
        Forbidden \<Rightarrow> Inr None
      | NotFound \<Rightarrow> Inr None
      | OtherStatus \<Rightarrow> Inl FeatureReadFailed
      | Ok \<Rightarrow>
          (case search_status r of
             Forbidden \<Rightarrow> Inr None
           | NotFound \<Rightarrow> Inr None
           | OtherStatus \<Rightarrow> Inl FeatureSearchFailed
           | Ok \<Rightarrow>
               Inr (Some \<lparr>b2cToolsFeaturesVersion = c_b2cToolsFeaturesVersion r,
                          b2cToolsFeaturesBootstrappedClientIDs = c_b2cToolsFeaturesBootstrappedClientIDs r,
                          features = (if length (objects r) > 0
                                      then map featureStateFromCustomObject (objects r) else [])\<rparr>)))"

text \<open>
  The loop of \<open>updateFeatureState\<close>, lib/state.ts lines 186 to 197, one secret name at a
  time, on \<open>targetVars\<close> and \<open>targetSecretVars\<close> (the latter with its setter flag). Both
  statements of the first branch read \<open>targetVars[key]\<close> before the marker is written.
  The marker is a string, so assigning it never changes the prototype of \<open>targetVars\<close>.
  \<open>delete\<close> removes an own property and does nothing otherwise.
\<close>

definition secret_step ::
  "bool \<Rightarrow> string \<Rightarrow> jsobject \<times> (jsobject \<times> bool) \<Rightarrow> jsobject \<times> (jsobject \<times> bool)" where
  "secret_step saveSecrets key tt =
     (let targetVars = fst tt; targetSecretVars = snd tt in
      if saveSecrets then
        (if get_property targetVars key \<noteq> Undefined
         then fst (set_property (targetVars, True) key (Val (JStr ''*****'')))
         else targetVars,
         set_property targetSecretVars key (get_property targetVars key))
      else if get_property targetVars key \<noteq> Undefined
           then (targetVars(key := None), targetSecretVars)
      else (targetVars, targetSecretVars))"

text \<open>Lines 183 to 197: the own properties of \<open>targetVars\<close> and of \<open>targetSecretVars\<close>.\<close>

definition target_vars :: "jsobject \<Rightarrow> string list option \<Rightarrow> bool \<Rightarrow> jsobject \<times> jsobject" where
  "target_vars vs secretNames saveSecrets =
     (case secretNames of
        None \<Rightarrow> (spread Map.empty vs, Map.empty)
      | Some keys \<Rightarrow>
          (let tt = fold (secret_step saveSecrets) keys (spread Map.empty vs, (Map.empty, True))
           in (fst tt, fst (snd tt))))"

text \<open>The request body of lines 207 to 210, as the custom object it describes.\<close>

definition feature_body :: "string \<Rightarrow> jsobject \<Rightarrow> string list option \<Rightarrow> bool \<Rightarrow> custom_object" where
  "feature_body fname vs secretNames saveSecrets =
     (let tt = target_vars vs secretNames saveSecrets in
      \<lparr>key_value_string = fname,
       c_vars = Some (JSON_stringify (fst tt)),
       c_secretVars = Some (JSON_stringify (snd tt))\<rparr>)"

text \<open>
  The Data API on one custom object: GET answers 404 for a key that is not there; PATCH
  changes the attributes of an object that is there; PUT creates the object. The plugin
  does not look at the result of PATCH and PUT, so a refused call leaves the store as
  it was and nothing is thrown.
\<close>

definition get_object_status :: "feature_remote \<Rightarrow> string \<Rightarrow> http" where
  "get_object_status r key =
     (if object_status r \<noteq> Ok then object_status r
      else if List.find (\<lambda>obj. key_value_string obj = key) (objects r) = None then NotFound
      else Ok)"

fun patch_object :: "custom_object \<Rightarrow> custom_object list \<Rightarrow> custom_object list" where
  "patch_object body [] = []"
| "patch_object body (obj # objs) =
     (if key_value_string obj = key_value_string body
      then obj\<lparr>c_vars := c_vars body, c_secretVars := c_secretVars body\<rparr> # objs
      else obj # patch_object body objs)"

definition put_object :: "custom_object \<Rightarrow> custom_object list \<Rightarrow> custom_object list" where
  "put_object body objs =
     (if List.find (\<lambda>obj. key_value_string obj = key_value_string body) objs = None
      then objs @ [body] else patch_object body objs)"

text \<open>\<open>updateFeatureState\<close>, lib/state.ts lines 176 to 223.\<close>

definition updateFeatureState ::
  "feature_remote \<Rightarrow> string \<Rightarrow> jsobject \<Rightarrow> string list option \<Rightarrow> bool \<Rightarrow> feature_remote" where
  "updateFeatureState r fname vs secretNames saveSecrets =
     (let body = feature_body fname vs secretNames saveSecrets;
          exists = \<not> (get_object_status r fname = NotFound)
      in if exists
         then (if object_status r = Ok then r\<lparr>objects := patch_object body (objects r)\<rparr> else r)
         else (if object_status r = Ok then r\<lparr>objects := put_object body (objects r)\<rparr> else r))"

text \<open>The custom object that a GET of \<open>/custom_objects/B2CToolsFeature/{key}\<close> returns.\<close>

definition stored_object :: "feature_remote \<Rightarrow> string \<Rightarrow> custom_object option" where
  "stored_object r key = List.find (\<lambda>obj. key_value_string obj = key) (objects r)"

section \<open>Collecting migrations (lib/migrations.ts)\<close>

text \<open>A directory entry as \<open>readdir(dir, {withFileTypes: true})\<close> returns it.\<close>

record dirent =
  name :: string
  isDirectory :: bool

text \<open>
  \<open>path.extname\<close> of Node.js (POSIX flavour), which \<open>collectMigrations\<close> calls: the loop
  runs from the last character to the first, so it is a recursion over the reversed
  path, the index of a character being the number of characters before it.
\<close>

record ext_scan =
  startDot :: int
  startPart :: int
  endPos :: int
  matchedSlash :: bool
  preDotState :: int

fun extname_loop :: "string \<Rightarrow> ext_scan \<Rightarrow> ext_scan" where
  "extname_loop [] s = s"
| "extname_loop (c # front) s =
     (let i = int (length front) in
      if c = CHR ''/'' then
        (if \<not> matchedSlash s then s\<lparr>startPart := i + 1\<rparr> else extname_loop front s)
      else
        (let s1 = (if endPos s = - 1 then s\<lparr>endPos := i + 1, matchedSlash := False\<rparr> else s);
             s2 = (if c = CHR ''.'' then
                     (if startDot s1 = - 1 then s1\<lparr>startDot := i\<rparr>
                      else if preDotState s1 \<noteq> 1 then s1\<lparr>preDotState := 1\<rparr> else s1)
                   else if startDot s1 \<noteq> - 1 then s1\<lparr>preDotState := - 1\<rparr> else s1)
         in extname_loop front s2))"

definition extname :: "string \<Rightarrow> string" where
  "extname path =
     (let s = extname_loop (rev path)
                \<lparr>startDot = - 1, startPart = 0, endPos = - 1, matchedSlash = True, preDotState = 0\<rparr>
      in if startDot s = - 1 \<or> endPos s = - 1 \<or> preDotState s = 0
            \<or> (preDotState s = 1 \<and> startDot s = endPos s - 1 \<and> startDot s = startPart s + 1)
         then []
         else take (nat (endPos s - startDot s)) (drop (nat (startDot s)) path))"

text \<open>
  \<open>Array.prototype.sort(comparefn)\<close>: ECMAScript requires a stable sort, and for a
  consistent comparator every stable sort returns the same array, which this insertion
  sort computes. \<open>comparefn a b < 0\<close> puts \<open>a\<close> first.
\<close>

fun insert_sorted :: "('a \<Rightarrow> 'a \<Rightarrow> int) \<Rightarrow> 'a \<Rightarrow> 'a list \<Rightarrow> 'a list" where
  "insert_sorted cmp x [] = [x]"
| "insert_sorted cmp x (y # ys) =
     (if cmp x y \<le> 0 then x # y # ys else y # insert_sorted cmp x ys)"

definition array_sort :: "('a \<Rightarrow> 'a \<Rightarrow> int) \<Rightarrow> 'a list \<Rightarrow> 'a list" where
  "array_sort cmp xs = foldr (insert_sorted cmp) xs []"

text \<open>
  \<open>collectMigrations\<close>, lines 27 to 40, on the entries that \<open>readdir\<close> returned. Two
  functions of the JavaScript runtime are parameters: \<open>re_match re n\<close> says whether
  \<open>n.match(re)\<close> finds a match of the pattern \<open>re\<close> in the name \<open>n\<close>, and
  \<open>localeCompare a b\<close> is \<open>a.localeCompare(b, 'en', {numeric: false})\<close>.
\<close>

definition collectMigrations ::
  "(string \<Rightarrow> string \<Rightarrow> bool) \<Rightarrow> (string \<Rightarrow> string \<Rightarrow> int) \<Rightarrow> dirent list \<Rightarrow> string list \<Rightarrow> string list" where
  "collectMigrations re_match localeCompare entries exclude =
     array_sort localeCompare
       (map name
          (filter (\<lambda>entry. name entry \<noteq> ''setup.js'')
             (filter (\<lambda>d. (isDirectory d \<or> extname (name d) = ''.js'')
                           \<and> list_all (\<lambda>re. \<not> re_match re (name d)) exclude)
                entries)))"

text \<open>
  A comparator for the examples: lexicographic by character code. It is a consistent
  comparator, and it orders the names of the examples as the \<open>en\<close> collation does.
\<close>

fun code_compare :: "string \<Rightarrow> string \<Rightarrow> int" where
  "code_compare [] [] = 0"
| "code_compare [] (b # bs) = - 1"
| "code_compare (a # as) [] = 1"
| "code_compare (a # as) (b # bs) =
     (if (of_char a :: nat) < of_char b then - 1
      else if (of_char b :: nat) < of_char a then 1
      else code_compare as bs)"

section \<open>Migration state on the instance (lib/state.ts)\<close>

definition B2C_TOOLKIT_DATA_VERSION :: int where
  "B2C_TOOLKIT_DATA_VERSION = 7"

text \<open>
  \<open>ToolkitInstanceState\<close> of lib/types.ts. A client entry parsed from the instance may
  lack its \<open>version\<close>, hence the option.
\<close>

record ToolkitInstanceState =
  version :: "int option"
  migrations :: "string list"
  clients :: "string \<rightharpoonup> int option"
  toolkitVars :: jsobject

text \<open>
  The \<open>b2cToolkit\<close> preference group on the instance: how it answers GET and PATCH, and
  its attributes. \<open>c_b2cToolkitMigrations\<close> is the raw string; the two JSON attributes are
  \<open>None\<close> when unset or not parseable and \<open>Some\<close> of their content otherwise.
\<close>

record remote =
  get_status :: http
  patch_status :: http
  c_b2cToolkitDataVersion :: "int option"
  c_b2cToolkitMigrations :: "string option"
  c_b2cToolsBootstrappedClientIDs :: "(string \<rightharpoonup> int option) option"
  c_b2cToolsVars :: "jsondoc option"

text \<open>\<open>s.split(',')\<close> and \<open>xs.join(',')\<close>.\<close>

fun split_comma :: "string \<Rightarrow> string list" where
  "split_comma [] = [[]]"
| "split_comma (c # cs) =
     (if c = CHR '','' then [] # split_comma cs
      else (case split_comma cs of [] \<Rightarrow> [[c]] | p # ps \<Rightarrow> (c # p) # ps))"

fun join_comma :: "string list \<Rightarrow> string" where
  "join_comma [] = []"
| "join_comma [x] = x"
| "join_comma (x # y # ys) = x @ CHR '','' # join_comma (y # ys)"

text \<open>
  The errors the engine throws, named after their messages, and those of the calls it
  makes. Every one is a plain \<open>Error\<close> in the source.
\<close>

datatype error =
    ReaddirFailed
  | ReadFailed
  | BootstrapNotAllowed
  | VersionGreater
  | StateUnreadable
  | BootstrapForbidden
  | BootstrapImportFailed
  | StateUnreadableAfterImport
  | TargetUnreadable string
  | NotAFunction string
  | ExecutionFailed string
  | HookThrew string
  | PermissionsError
  | UnableToSetMigrations
  | UpdateFailed

text \<open>
  \<open>getInstanceState\<close>, lines 16 to 59: \<open>Inr None\<close> is the \<open>null\<close> returned on 403 and 404.
  An unset or empty \<open>c_b2cToolkitMigrations\<close> gives the empty list.
\<close>

definition getInstanceState :: "remote \<Rightarrow> error + ToolkitInstanceState option" where
  "getInstanceState r =
     (case get_status r of
        Forbidden \<Rightarrow> Inr None
      | NotFound \<Rightarrow> Inr None
      | OtherStatus \<Rightarrow> Inl ReadFailed
      | Ok \<Rightarrow>
          Inr (Some \<lparr>version = c_b2cToolkitDataVersion r,
                     migrations = (case c_b2cToolkitMigrations r of
                                     None \<Rightarrow> []
                                   | Some raw \<Rightarrow> if raw = [] then [] else split_comma raw),
                     clients = (case c_b2cToolsBootstrappedClientIDs r of
                                  None \<Rightarrow> Map.empty | Some c \<Rightarrow> c),
                     toolkitVars = (case c_b2cToolsVars r of
                                      None \<Rightarrow> Map.empty | Some d \<Rightarrow> JSON_parse d)\<rparr>))"

text \<open>\<open>updateInstanceMigrations\<close>, lines 64 to 86.\<close>

definition updateInstanceMigrations :: "remote \<Rightarrow> string list \<Rightarrow> error + remote" where
  "updateInstanceMigrations r ms =
     (case patch_status r of
        Ok \<Rightarrow> Inr (r\<lparr>c_b2cToolkitMigrations := Some (join_comma ms)\<rparr>)
      | Forbidden \<Rightarrow> Inl PermissionsError
      | NotFound \<Rightarrow> Inl UnableToSetMigrations
      | OtherStatus \<Rightarrow> Inl UpdateFailed)"

section \<open>Bootstrap (lib/bootstrap.ts)\<close>

text \<open>
  \<open>isMigrationBootstrapRequired\<close>: \<open>!instanceState.version\<close> is true for \<open>null\<close> and for
  \<open>0\<close>; the client map of a state that was read is always an object.
\<close>

definition isMigrationBootstrapRequired :: "string \<Rightarrow> ToolkitInstanceState option \<Rightarrow> bool" where
  "isMigrationBootstrapRequired clientId instanceState =
     (case instanceState of
        None \<Rightarrow> True
      | Some s \<Rightarrow>
          (case version s of
             None \<Rightarrow> True
           | Some v \<Rightarrow>
               v = 0 \<or> v < B2C_TOOLKIT_DATA_VERSION
               \<or> (case clients s clientId of
                     None \<Rightarrow> True
                   | Some cv \<Rightarrow> (case cv of None \<Rightarrow> 0 | Some n \<Rightarrow> n) < B2C_TOOLKIT_DATA_VERSION)))"

text \<open>A call of a project-supplied function returns a value or throws.\<close>

datatype 'a outcome = Returns 'a | Throws

text \<open>
  \<open>MigrationLifecycleFunctions\<close> of lib/types.ts, the content of \<open>setup.js\<close>: each hook is
  absent (\<open>None\<close>) or a function of the arguments the engine passes besides the common
  script arguments. \<open>onBootstrap\<close> receives the state object and may change it in place,
  so it returns the state it leaves.
\<close>

record MigrationLifecycleFunctions =
  init :: "unit outcome option"
  shouldBootstrap :: "(ToolkitInstanceState \<Rightarrow> bool outcome) option"
  onBootstrap :: "(ToolkitInstanceState \<Rightarrow> ToolkitInstanceState outcome) option"
  beforeAll :: "(string list \<Rightarrow> bool \<Rightarrow> bool \<Rightarrow> unit outcome) option"
  beforeEach :: "(string \<Rightarrow> bool \<Rightarrow> bool outcome) option"
  afterEach :: "(string \<Rightarrow> bool \<Rightarrow> unit outcome) option"
  afterAll :: "(string list \<Rightarrow> bool \<Rightarrow> unit outcome) option"
  onFailure :: "(string \<Rightarrow> error \<Rightarrow> unit outcome) option"

text \<open>
  What a migration name resolves to on disk: nothing that \<open>stat\<close> or \<open>require\<close> can read,
  a directory (the flag says whether its archive import succeeds), or a script whose
  module exports a function (the flag says whether the call completes) or something
  else.
\<close>

datatype script_export = ExportsFunction bool | ExportsOther

datatype unit_target = Unreadable | ArchiveDir bool | ScriptFile script_export

text \<open>The import of the bootstrap archive: the instance it leaves, or its failure.\<close>

datatype import_result = Imported remote | ImportForbidden | ImportFailed

text \<open>
  Everything outside the engine that a run depends on: the directory listing (\<open>None\<close>
  when \<open>readdir\<close> fails), the two runtime functions of \<open>collectMigrations\<close>, the lifecycle
  module, the migration targets, the effect of the bootstrap import, and \<open>interfere\<close>:
  what the migration itself and any concurrent writer have done to the preference group
  by the time the engine reads it again for that migration.
\<close>

record env =
  listing :: "dirent list option"
  re_match :: "string \<Rightarrow> string \<Rightarrow> bool"
  localeCompare :: "string \<Rightarrow> string \<Rightarrow> int"
  lifeCycleModule :: MigrationLifecycleFunctions
  target :: "string \<Rightarrow> unit_target"
  bootstrapImport :: "remote \<Rightarrow> import_result"
  interfere :: "string \<Rightarrow> remote \<Rightarrow> remote"

text \<open>
  The final PATCH of \<open>bootstrapMigrations\<close>; its result is not inspected, so a refused
  PATCH changes nothing and throws nothing.
\<close>

definition record_bootstrap :: "remote \<Rightarrow> ToolkitInstanceState \<Rightarrow> remote" where
  "record_bootstrap r s =
     (if patch_status r = Ok
      then r\<lparr>c_b2cToolkitDataVersion := Some B2C_TOOLKIT_DATA_VERSION,
             c_b2cToolsBootstrappedClientIDs := Some (clients s),
             c_b2cToolsVars := Some (JSON_stringify (toolkitVars s))\<rparr>
      else r)"

text \<open>\<open>bootstrapMigrations\<close>: the instance it leaves and the error it throws, if any.\<close>

definition bootstrapMigrations :: "env \<Rightarrow> string \<Rightarrow> remote \<Rightarrow> remote \<times> error option" where
  "bootstrapMigrations e clientId r =
     (case bootstrapImport e r of
        ImportForbidden \<Rightarrow> (r, Some BootstrapForbidden)
      | ImportFailed \<Rightarrow> (r, Some BootstrapImportFailed)
      | Imported r1 \<Rightarrow>
          (case getInstanceState r1 of
             Inl err \<Rightarrow> (r1, Some err)
           | Inr None \<Rightarrow> (r1, Some StateUnreadableAfterImport)
           | Inr (Some s) \<Rightarrow>
               (let s1 = s\<lparr>clients := (clients s)(clientId \<mapsto> Some B2C_TOOLKIT_DATA_VERSION)\<rparr>
                in case (case onBootstrap (lifeCycleModule e) of
                           None \<Rightarrow> Returns s1
                         | Some hook \<Rightarrow> hook s1) of
                     Throws \<Rightarrow> (r1, Some (HookThrew ''onBootstrap''))
                   | Returns s2 \<Rightarrow> (record_bootstrap r1 s2, None))))"

section \<open>The migration engine (lib/migrations.ts)\<close>

text \<open>
  \<open>MigrateInstanceOptions\<close>: the flags that decide what the engine does. \<open>willApply\<close> is
  the option \<open>apply\<close>, under the name the hooks receive it by; \<open>vars\<close>, \<open>showNotes\<close> and
  \<open>shortCode\<close> only reach the scripts and the log.
\<close>

record MigrateInstanceOptions =
  exclude :: "string list"
  willApply :: bool
  dryRun :: bool
  forceBootstrap :: bool
  allowBootstrap :: bool

text \<open>
  One pass of lines 240 to 253, as it happened: the migration, the list read back from
  the instance (\<open>None\<close> when the read returned \<open>null\<close>), the in-memory list with the
  migration pushed, and the list handed to \<open>updateInstanceMigrations\<close>.
\<close>

record commit_record =
  unit_id :: string
  reread :: "string list option"
  memory :: "string list"
  written :: "string list"

text \<open>
  The state of a run: the instance, the variables \<open>instanceMigrations\<close> and
  \<open>migrationsRan\<close> of the source, and what the run has done so far: the migrations whose
  execution block it entered, the commits it wrote, and the calls of
  \<open>bootstrapMigrations\<close>.
\<close>

record run_state =
  inst :: remote
  instanceMigrations :: "string list"
  migrationsRan :: "string list"
  attempted :: "string list"
  commits :: "commit_record list"
  bootstraps :: nat

text \<open>
  \<open>Array.from(new Set(xs))\<close>: a Set keeps each value once, in the order of first
  insertion.
\<close>

definition set_add :: "'a \<Rightarrow> 'a list \<Rightarrow> 'a list" where
  "set_add x seen = (if x \<in> set seen then seen else seen @ [x])"

definition array_from_set :: "'a list \<Rightarrow> 'a list" where
  "array_from_set xs = fold set_add xs []"

text \<open>Line 142: the migrations of the project that the instance does not list.\<close>

definition migrationsToApply :: "string list \<Rightarrow> string list \<Rightarrow> string list" where
  "migrationsToApply projectMigrations instanceMigrations0 =
     filter (\<lambda>m. m \<notin> set instanceMigrations0) projectMigrations"

text \<open>Lines 255 to 264: the \<open>afterEach\<close> hook, then the migration counts as run.\<close>

definition after_commit ::
  "env \<Rightarrow> MigrateInstanceOptions \<Rightarrow> string \<Rightarrow> run_state \<Rightarrow> run_state \<times> error option" where
  "after_commit e opts migration st =
     (case (case afterEach (lifeCycleModule e) of
              None \<Rightarrow> Returns ()
            | Some hook \<Rightarrow> hook migration (willApply opts)) of
        Throws \<Rightarrow> (st, Some (HookThrew ''afterEach''))
      | Returns u \<Rightarrow> (st\<lparr>migrationsRan := migrationsRan st @ [migration]\<rparr>, None))"

text \<open>Lines 238 to 253: the push, and with \<open>apply\<close> the read, the merge and the write.\<close>

definition commit ::
  "env \<Rightarrow> MigrateInstanceOptions \<Rightarrow> string \<Rightarrow> run_state \<Rightarrow> run_state \<times> error option" where
  "commit e opts migration st =
     (let pushed = instanceMigrations st @ [migration] in
      if willApply opts then
        (let r1 = interfere e migration (inst st) in
         case getInstanceState r1 of
           Inl err \<Rightarrow> (st\<lparr>inst := r1, instanceMigrations := pushed\<rparr>, Some err)
         | Inr instanceState \<Rightarrow>
             (let merged = (case instanceState of
                              None \<Rightarrow> pushed
                            | Some s \<Rightarrow> array_from_set (migrations s @ pushed))
              in case updateInstanceMigrations r1 merged of
                   Inl err \<Rightarrow> (st\<lparr>inst := r1, instanceMigrations := merged\<rparr>, Some err)
                 | Inr r2 \<Rightarrow>
                     after_commit e opts migration
                       (st\<lparr>inst := r2, instanceMigrations := merged,
                           commits := commits st @
                             [\<lparr>unit_id = migration, reread = map_option migrations instanceState,
                               memory = pushed, written = merged\<rparr>]\<rparr>)))
      else after_commit e opts migration (st\<lparr>instanceMigrations := pushed\<rparr>))"

text \<open>The \<open>try\<close> block, lines 211 to 220: the error it throws, if any.\<close>

definition execute_unit :: "string \<Rightarrow> unit_target \<Rightarrow> error option" where
  "execute_unit migration t =
     (case t of
        Unreadable \<Rightarrow> Some (TargetUnreadable migration)
      | ArchiveDir ok \<Rightarrow> if ok then None else Some (ExecutionFailed migration)
      | ScriptFile ex \<Rightarrow>
          (case ex of
             ExportsOther \<Rightarrow> Some (NotAFunction migration)
           | ExportsFunction ok \<Rightarrow> if ok then None else Some (ExecutionFailed migration)))"

text \<open>The body of the loop, lines 174 to 264, for one migration.\<close>

definition run_unit ::
  "env \<Rightarrow> MigrateInstanceOptions \<Rightarrow> string \<Rightarrow> run_state \<Rightarrow> run_state \<times> error option" where
  "run_unit e opts migration st =
     (if target e migration = Unreadable then (st, Some (TargetUnreadable migration))
      else if dryRun opts then (st, None)
      else
        (case (case beforeEach (lifeCycleModule e) of
                 None \<Rightarrow> Returns True
               | Some hook \<Rightarrow> hook migration (willApply opts)) of
           Throws \<Rightarrow> (st, Some (HookThrew ''beforeEach''))
         | Returns runMigration \<Rightarrow>
             if runMigration then
               (let st1 = st\<lparr>attempted := attempted st @ [migration]\<rparr> in
                case execute_unit migration (target e migration) of
                  None \<Rightarrow> commit e opts migration st1
                | Some err \<Rightarrow>
                    (case onFailure (lifeCycleModule e) of
                       None \<Rightarrow> (st1, Some err)
                     | Some hook \<Rightarrow>
                         (case hook migration err of
                            Throws \<Rightarrow> (st1, Some (HookThrew ''onFailure''))
                          | Returns u \<Rightarrow> commit e opts migration st1)))
             else commit e opts migration st))"

text \<open>The loop of line 173: it stops at the first error.\<close>

fun run_units ::
  "env \<Rightarrow> MigrateInstanceOptions \<Rightarrow> string list \<Rightarrow> run_state \<Rightarrow> run_state \<times> error option" where
  "run_units e opts [] st = (st, None)"
| "run_units e opts (m # ms) st =
     (case run_unit e opts m st of
        (st', Some err) \<Rightarrow> (st', Some err)
      | (st', None) \<Rightarrow> run_units e opts ms st')"

text \<open>
  Lines 103 to 137: the state read, the bootstrap decision and the version check. The
  result is the state to plan against, or the error thrown.
\<close>

definition state_check ::
  "env \<Rightarrow> string \<Rightarrow> MigrateInstanceOptions \<Rightarrow> run_state \<Rightarrow> run_state \<times> (error + ToolkitInstanceState)" where
  "state_check e clientId opts st =
     (case getInstanceState (inst st) of
        Inl err \<Rightarrow> (st, Inl err)
      | Inr instanceState \<Rightarrow>
          (let required = isMigrationBootstrapRequired clientId instanceState;
               bootstrapRequired =
                 (if required then True
                  else (case shouldBootstrap (lifeCycleModule e) of
                          None \<Rightarrow> False
                        | Some hook \<Rightarrow>
                            (case instanceState of
                               None \<Rightarrow> False
                             | Some s \<Rightarrow> (case hook s of Throws \<Rightarrow> True | Returns b \<Rightarrow> b))))
           in if bootstrapRequired \<and> \<not> allowBootstrap opts then (st, Inl BootstrapNotAllowed)
              else if forceBootstrap opts \<or> bootstrapRequired then
                (case bootstrapMigrations e clientId (inst st) of
                   (r1, Some err) \<Rightarrow> (st\<lparr>inst := r1, bootstraps := bootstraps st + 1\<rparr>, Inl err)
                 | (r1, None) \<Rightarrow>
                     (let st1 = st\<lparr>inst := r1, bootstraps := bootstraps st + 1\<rparr> in
                      case getInstanceState r1 of
                        Inl err \<Rightarrow> (st1, Inl err)
                      | Inr None \<Rightarrow> (st1, Inl StateUnreadable)
                      | Inr (Some s) \<Rightarrow> (st1, Inr s)))
              else (case instanceState of
                      None \<Rightarrow> (st, Inl StateUnreadable)
                    | Some s \<Rightarrow>
                        if (case version s of None \<Rightarrow> False
                            | Some v \<Rightarrow> v \<noteq> 0 \<and> v > B2C_TOOLKIT_DATA_VERSION)
                        then (st, Inl VersionGreater)
                        else (st, Inr s))))"

text \<open>The state a run starts in: nothing read, run or written yet.\<close>

definition start_state :: "remote \<Rightarrow> run_state" where
  "start_state r =
     \<lparr>inst = r, instanceMigrations = [], migrationsRan = [], attempted = [],
      commits = [], bootstraps = 0\<rparr>"

text \<open>
  \<open>migrateInstance\<close>, lines 49 to 284: the state the run ends in and the error it throws,
  if any. The log upload at the end cannot fail the run and is left out.
\<close>

definition migrateInstance ::
  "env \<Rightarrow> string \<Rightarrow> MigrateInstanceOptions \<Rightarrow> remote \<Rightarrow> run_state \<times> error option" where
  "migrateInstance e clientId opts r =
     (let st0 = start_state r
      in if init (lifeCycleModule e) = Some Throws then (st0, Some (HookThrew ''init''))
         else
           (case listing e of
              None \<Rightarrow> (st0, Some ReaddirFailed)
            | Some entries \<Rightarrow>
                (let projectMigrations =
                       collectMigrations (re_match e) (localeCompare e) entries (exclude opts)
                 in case state_check e clientId opts st0 of
                      (st1, Inl err) \<Rightarrow> (st1, Some err)
                    | (st1, Inr instanceState) \<Rightarrow>
                        (let st2 = st1\<lparr>instanceMigrations := migrations instanceState\<rparr>;
                             pending = migrationsToApply projectMigrations (migrations instanceState)
                         in case (case beforeAll (lifeCycleModule e) of
                                    None \<Rightarrow> Returns ()
                                  | Some hook \<Rightarrow> hook pending (willApply opts) (dryRun opts)) of
                              Throws \<Rightarrow> (st2, Some (HookThrew ''beforeAll''))
                            | Returns u \<Rightarrow>
                                (case run_units e opts pending st2 of
                                   (st3, Some err) \<Rightarrow> (st3, Some err)
                                 | (st3, None) \<Rightarrow>
                                     (if dryRun opts then (st3, None)
                                      else (case (case afterAll (lifeCycleModule e) of
                                                    None \<Rightarrow> Returns ()
                                                  | Some hook \<Rightarrow> hook (migrationsRan st3) (willApply opts)) of
                                              Throws \<Rightarrow> (st3, Some (HookThrew ''afterAll''))
                                            | Returns u \<Rightarrow> (st3, None))))))))"

section \<open>Notions used to state the properties\<close>

text \<open>
  A consistent comparator in the sense of ECMAScript: its sign is antisymmetric and its
  non-positive results are transitive. \<open>localeCompare\<close> with a fixed locale is one.
\<close>

definition consistent_comparator :: "('a \<Rightarrow> 'a \<Rightarrow> int) \<Rightarrow> bool" where
  "consistent_comparator cmp \<longleftrightarrow>
     (\<forall>a b. (cmp a b < 0) = (cmp b a > 0))
   \<and> (\<forall>a b c. cmp a b \<le> 0 \<and> cmp b c \<le> 0 \<longrightarrow> cmp a c \<le> 0)"


text \<open>A directory listing for the examples.\<close>

definition example_entries :: "dirent list" where
  "example_entries =
     [\<lparr>name = ''2-foo'', isDirectory = True\<rparr>, \<lparr>name = ''setup.js'', isDirectory = False\<rparr>,
      \<lparr>name = ''10-foo'', isDirectory = True\<rparr>, \<lparr>name = ''notes.txt'', isDirectory = False\<rparr>,
      \<lparr>name = ''3-bar.js'', isDirectory = False\<rparr>, \<lparr>name = ''.js'', isDirectory = False\<rparr>,
      \<lparr>name = ''old'', isDirectory = True\<rparr>]"

text \<open>
  Line 210, \<open>runMigration !== false\<close>: the migration is executed when there is no
  \<open>beforeEach\<close> hook or the hook returns \<open>true\<close> for it.
\<close>

definition not_vetoed :: "env \<Rightarrow> MigrateInstanceOptions \<Rightarrow> string \<Rightarrow> bool" where
  "not_vetoed e opts m =
     (case beforeEach (lifeCycleModule e) of
        None \<Rightarrow> True
      | Some hook \<Rightarrow> hook m (willApply opts) = Returns True)"

text \<open>The identifiers that the reads recorded in a list of commits returned.\<close>

definition reread_ids :: "commit_record list \<Rightarrow> string set" where
  "reread_ids cs = (\<Union>c \<in> set cs. case reread c of None \<Rightarrow> {} | Some fresh \<Rightarrow> set fresh)"

text \<open>A commit wrote what lines 243 to 252 compute from its read and its in-memory list.\<close>

definition commit_ok :: "commit_record \<Rightarrow> bool" where
  "commit_ok c =
     (case reread c of
        None \<Rightarrow> written c = memory c
      | Some fresh \<Rightarrow> written c = array_from_set (fresh @ memory c))"

text \<open>
  Every commit of the list wrote only identifiers that were known by then: those of
  \<open>known\<close>, and those returned by the reads of the commits up to and including it.
\<close>

fun writes_from :: "string set \<Rightarrow> commit_record list \<Rightarrow> bool" where
  "writes_from known [] = True"
| "writes_from known (c # cs) =
     (let known' = known \<union> (case reread c of None \<Rightarrow> {} | Some fresh \<Rightarrow> set fresh)
      in set (written c) \<subseteq> known' \<and> writes_from known' cs)"

text \<open>
  The invariant of the loop on the commits written so far, for the list \<open>base\<close> read
  before planning and the migrations \<open>catalog\<close> of the project; and on the whole state,
  which adds that the in-memory list holds \<open>base\<close> and every list written so far.
\<close>

definition trace_inv :: "string list \<Rightarrow> string list \<Rightarrow> commit_record list \<Rightarrow> bool" where
  "trace_inv base catalog cs \<longleftrightarrow>
     (\<forall>c \<in> set cs. commit_ok c \<and> set base \<subseteq> set (written c))
   \<and> sorted_wrt (\<lambda>a b. set (written a) \<subseteq> set (written b)) cs
   \<and> writes_from (set base \<union> set catalog) cs"

definition run_inv :: "string list \<Rightarrow> string list \<Rightarrow> run_state \<Rightarrow> bool" where
  "run_inv base catalog st \<longleftrightarrow>
     set base \<subseteq> set (instanceMigrations st)
   \<and> set (instanceMigrations st) \<subseteq> set base \<union> set catalog \<union> reread_ids (commits st)
   \<and> (\<forall>c \<in> set (commits st). set (written c) \<subseteq> set (instanceMigrations st))
   \<and> trace_inv base catalog (commits st)"

text \<open>
  Examples: a project without \<open>setup.js\<close>, the default options, an instance that is
  bootstrapped for the client \<open>client\<close> and lists the given migrations, and a run in which
  a concurrent writer sets the list to \<open>A,B,C\<close> while migration \<open>D\<close> is applied.
\<close>

definition no_hooks :: MigrationLifecycleFunctions where
  "no_hooks = \<lparr>init = None, shouldBootstrap = None, onBootstrap = None, beforeAll = None,
                beforeEach = None, afterEach = None, afterAll = None, onFailure = None\<rparr>"

definition default_options :: MigrateInstanceOptions where
  "default_options = \<lparr>exclude = [], willApply = True, dryRun = False,
                       forceBootstrap = False, allowBootstrap = True\<rparr>"

definition bootstrapped_remote :: "string \<Rightarrow> remote" where
  "bootstrapped_remote raw =
     \<lparr>get_status = Ok, patch_status = Ok, c_b2cToolkitDataVersion = Some 7,
      c_b2cToolkitMigrations = Some raw,
      c_b2cToolsBootstrappedClientIDs = Some [''client'' \<mapsto> Some 7],
      c_b2cToolsVars = None\<rparr>"

definition concurrent_env :: env where
  "concurrent_env =
     \<lparr>listing = Some [\<lparr>name = ''D'', isDirectory = True\<rparr>, \<lparr>name = ''B'', isDirectory = True\<rparr>,
                      \<lparr>name = ''A'', isDirectory = True\<rparr>],
      re_match = (\<lambda>re n. False), localeCompare = code_compare,
      lifeCycleModule = no_hooks,
      target = (\<lambda>m. ArchiveDir True),
      bootstrapImport = (\<lambda>r. Imported r),
      interfere = (\<lambda>m r. if m = ''D'' then r\<lparr>c_b2cToolkitMigrations := Some ''A,B,C''\<rparr> else r)\<rparr>"

text \<open>A project whose third migration is a script that throws.\<close>

definition failing_env :: env where
  "failing_env =
     \<lparr>listing = Some [\<lparr>name = ''0003-c.js'', isDirectory = False\<rparr>,
                      \<lparr>name = ''0001-a'', isDirectory = True\<rparr>,
                      \<lparr>name = ''0002-b'', isDirectory = True\<rparr>],
      re_match = (\<lambda>re n. False), localeCompare = code_compare,
      lifeCycleModule = no_hooks,
      target = (\<lambda>m. if m = ''0003-c.js'' then ScriptFile (ExportsFunction False) else ArchiveDir True),
      bootstrapImport = (\<lambda>r. Imported r),
      interfere = (\<lambda>m r. r)\<rparr>"

text \<open>A project with the two migrations \<open>0001-a\<close> and \<open>0002-b\<close> and an empty \<open>setup.js\<close>.\<close>

definition two_unit_env :: env where
  "two_unit_env =
     \<lparr>listing = Some [\<lparr>name = ''0002-b'', isDirectory = True\<rparr>,
                      \<lparr>name = ''setup.js'', isDirectory = False\<rparr>,
                      \<lparr>name = ''0001-a'', isDirectory = True\<rparr>],
      re_match = (\<lambda>re n. False), localeCompare = code_compare,
      lifeCycleModule = no_hooks,
      target = (\<lambda>m. ArchiveDir True),
      bootstrapImport = (\<lambda>r. Imported r),
      interfere = (\<lambda>m r. r)\<rparr>"

text \<open>
  A \<open>setup.js\<close> whose only hook is an \<open>onFailure\<close> that returns, a project whose only
  migration is a script that exports no function, and an instance whose data version is
  8, above the 7 of this engine.
\<close>

definition forgiving_hooks :: MigrationLifecycleFunctions where
  "forgiving_hooks = no_hooks\<lparr>onFailure := Some (\<lambda>m err. Returns ())\<rparr>"

definition invalid_unit_env :: "MigrationLifecycleFunctions \<Rightarrow> env" where
  "invalid_unit_env hooks =
     \<lparr>listing = Some [\<lparr>name = ''0001-bad.js'', isDirectory = False\<rparr>],
      re_match = (\<lambda>re n. False), localeCompare = code_compare,
      lifeCycleModule = hooks,
      target = (\<lambda>m. ScriptFile ExportsOther),
      bootstrapImport = (\<lambda>r. Imported r),
      interfere = (\<lambda>m r. r)\<rparr>"

definition newer_remote :: "string \<Rightarrow> remote" where
  "newer_remote raw =
     \<lparr>get_status = Ok, patch_status = Ok, c_b2cToolkitDataVersion = Some 8,
      c_b2cToolkitMigrations = Some raw,
      c_b2cToolsBootstrappedClientIDs = Some [''client'' \<mapsto> Some 8],
      c_b2cToolsVars = None\<rparr>"

text \<open>
  A feature store that answers every call and holds no feature yet; and what it holds
  for a variable of a feature afterwards: the entry of the plain field \<open>c_vars\<close>, that of
  the secret field \<open>c_secretVars\<close>, and the variable as \<open>getInstanceFeatureState\<close> returns
  it.
\<close>

definition empty_feature_store :: feature_remote where
  "empty_feature_store =
     \<lparr>prefs_status = Ok, search_status = Ok, object_status = Ok,
      c_b2cToolsFeaturesVersion = Some 3,
      c_b2cToolsFeaturesBootstrappedClientIDs = Map.empty, objects = []\<rparr>"

definition stored_plain :: "feature_remote \<Rightarrow> string \<Rightarrow> string \<Rightarrow> json option" where
  "stored_plain r fname k =
     (case stored_object r fname of
        None \<Rightarrow> None
      | Some obj \<Rightarrow> (case c_vars obj of None \<Rightarrow> None | Some d \<Rightarrow> d k))"

definition stored_secret :: "feature_remote \<Rightarrow> string \<Rightarrow> string \<Rightarrow> json option" where
  "stored_secret r fname k =
     (case stored_object r fname of
        None \<Rightarrow> None
      | Some obj \<Rightarrow> (case c_secretVars obj of None \<Rightarrow> None | Some d \<Rightarrow> d k))"

definition read_variable :: "feature_remote \<Rightarrow> string \<Rightarrow> string \<Rightarrow> jsval option" where
  "read_variable r fname k =
     (case getInstanceFeatureState r of
        Inr (Some st) \<Rightarrow>
          (case find_feature (features st) fname of None \<Rightarrow> None | Some fs \<Rightarrow> vars fs k)
      | _ \<Rightarrow> None)"

text \<open>
  What a commit left on the instance, as \<open>getInstanceState\<close> reads it: the written list,
  joined by \<open>updateInstanceMigrations\<close> and split again.
\<close>

definition persisted :: "commit_record \<Rightarrow> string list" where
  "persisted c = (let raw = join_comma (written c) in if raw = [] then [] else split_comma raw)"

text \<open>
  The identifiers the run holds have no comma in them, and every commit so far is that
  of a migration of the catalog, which its written list contains.
\<close>

definition plain_ids :: "string list \<Rightarrow> run_state \<Rightarrow> bool" where
  "plain_ids catalog st \<longleftrightarrow>
     (\<forall>x \<in> set (instanceMigrations st). CHR '','' \<notin> set x)
   \<and> (\<forall>c \<in> set (commits st).
         unit_id c \<in> set catalog \<and> unit_id c \<in> set (written c)
       \<and> (\<forall>x \<in> set (written c). CHR '','' \<notin> set x))"

text \<open>The instance holds the list of the last commit, if there was one.\<close>

definition holds_last :: "run_state \<Rightarrow> bool" where
  "holds_last st \<longleftrightarrow>
     commits st = []
   \<or> c_b2cToolkitMigrations (inst st) = Some (join_comma (written (last (commits st))))"

text \<open>A project with a migration whose name has a comma in it.\<close>

definition comma_env :: env where
  "comma_env =
     \<lparr>listing = Some [\<lparr>name = ''z'', isDirectory = True\<rparr>, \<lparr>name = ''x,y'', isDirectory = True\<rparr>],
      re_match = (\<lambda>re n. False), localeCompare = code_compare,
      lifeCycleModule = no_hooks,
      target = (\<lambda>m. ArchiveDir True),
      bootstrapImport = (\<lambda>r. Imported r),
      interfere = (\<lambda>m r. r)\<rparr>"

section \<open>Properties\<close>

subsection \<open>Variable precedence in deployFeature\<close>

text \<open>
  C9. The merged variables of \<open>deployFeature\<close> take each key from the caller's variables
  when the caller supplies it, otherwise from the variables stored on the instance for the
  feature, otherwise from the template's defaults; and for defaults \<open>{x:1}\<close>, stored
  \<open>{x:2,y:3}\<close> and caller \<open>{y:4}\<close> the result is exactly \<open>{x:2,y:4}\<close>.
\<close>

theorem deployFeature_precedence:
  "deployFeature_featureVars feature (find_feature stored n) callerVars k =
     (case callerVars k of
        Some v \<Rightarrow> Some v
      | None \<Rightarrow>
          (case (case find_feature stored n of None \<Rightarrow> Map.empty | Some fs \<Rightarrow> vars fs) k of
             Some v \<Rightarrow> Some v
           | None \<Rightarrow> (case defaultVars feature of None \<Rightarrow> None | Some d \<Rightarrow> d k)))
   \<and> deployFeature_featureVars
        \<lparr>defFeatureName = ''f'', defaultVars = Some [''x'' \<mapsto> Val (JNum 1)], secretVars = None\<rparr>
        (find_feature
           [\<lparr>featureName = ''f'', vars = [''x'' \<mapsto> Val (JNum 2), ''y'' \<mapsto> Val (JNum 3)]\<rparr>] ''f'')
        [''y'' \<mapsto> Val (JNum 4)]
      = [''x'' \<mapsto> Val (JNum 2), ''y'' \<mapsto> Val (JNum 4)]"
proof
  show "deployFeature_featureVars feature (find_feature stored n) callerVars k =
     (case callerVars k of
        Some v \<Rightarrow> Some v
      | None \<Rightarrow>
          (case (case find_feature stored n of None \<Rightarrow> Map.empty | Some fs \<Rightarrow> vars fs) k of
             Some v \<Rightarrow> Some v
           | None \<Rightarrow> (case defaultVars feature of None \<Rightarrow> None | Some d \<Rightarrow> d k)))"
    by (simp add: deployFeature_featureVars_def spread_def map_add_def split: option.splits)
next
  show "deployFeature_featureVars
        \<lparr>defFeatureName = ''f'', defaultVars = Some [''x'' \<mapsto> Val (JNum 1)], secretVars = None\<rparr>
        (find_feature
           [\<lparr>featureName = ''f'', vars = [''x'' \<mapsto> Val (JNum 2), ''y'' \<mapsto> Val (JNum 3)]\<rparr>] ''f'')
        [''y'' \<mapsto> Val (JNum 4)]
      = [''x'' \<mapsto> Val (JNum 2), ''y'' \<mapsto> Val (JNum 4)]"
    by (rule ext) (simp add: deployFeature_featureVars_def find_feature_def spread_def map_add_def)
qed

subsection \<open>Secrets in the stored feature record\<close>

lemma get_property_own: "tv k = Some v \<Longrightarrow> get_property tv k = v"
  by (simp add: get_property_def)

lemma secret_step_save:
  "secret_step True key (tv, sec) =
     (if defined_at tv key then fst (set_property (tv, True) key (Val (JStr ''*****''))) else tv,
      set_property sec key (get_property tv key))"
  by (simp add: secret_step_def defined_at_def)

lemma secret_step_drop:
  "secret_step False key (tv, sec) = (if defined_at tv key then tv(key := None) else tv, sec)"
  by (simp add: secret_step_def defined_at_def)

lemma defined_at_other: "k \<noteq> a \<Longrightarrow> defined_at (m(a := x)) k = defined_at m k"
  by (simp add: defined_at_def get_property_def)

lemma defined_at_marker: "defined_at (m(a \<mapsto> Val x)) a"
  by (simp add: defined_at_def get_property_def)

lemma fold_secret_step_save_fst:
  "''__proto__'' \<notin> set keys \<Longrightarrow>
   fst (fold (secret_step True) keys (tv, sec)) k =
     (if k \<in> set keys \<and> defined_at tv k then Some (Val (JStr ''*****'')) else tv k)"
proof (induction keys arbitrary: tv sec)
  case Nil
  show ?case by simp
next
  case (Cons a keys)
  then show ?case
    by (auto simp: secret_step_save set_property_def defined_at_other defined_at_marker)
qed

lemma fold_secret_step_save_snd:
  "distinct keys \<Longrightarrow> ''__proto__'' \<notin> set keys \<Longrightarrow>
   fst (snd (fold (secret_step True) keys (tv, sec))) k =
     (if k \<in> set keys then Some (get_property tv k) else fst sec k)"
proof (induction keys arbitrary: tv sec)
  case Nil
  show ?case by simp
next
  case (Cons a keys)
  then show ?case
    by (auto simp: secret_step_save set_property_def get_property_def)
qed

lemma fold_secret_step_drop_fst:
  "fst (fold (secret_step False) keys (tv, sec)) k =
     (if k \<in> set keys \<and> defined_at tv k then None else tv k)"
proof (induction keys arbitrary: tv sec)
  case Nil
  show ?case by simp
next
  case (Cons a keys)
  show ?case
    by (simp add: secret_step_drop Cons.IH) (auto simp: defined_at_other)
qed

lemma fold_secret_step_drop_snd:
  "snd (fold (secret_step False) keys (tv, sec)) = sec"
  by (induction keys arbitrary: tv sec) (simp_all add: secret_step_drop)

lemma stringify_undefined:
  "\<not> defined_at vs k \<Longrightarrow> JSON_stringify vs k = None"
  by (auto simp: JSON_stringify_def defined_at_def get_property_def split: option.splits jsval.splits if_splits)

lemma stringify_get_property:
  "k \<noteq> ''__proto__'' \<Longrightarrow>
   (case get_property vs k of Undefined \<Rightarrow> None | Builtin \<Rightarrow> None
      | ObjectPrototype \<Rightarrow> Some (JObj []) | Val v \<Rightarrow> Some v) = JSON_stringify vs k"
  by (auto simp: JSON_stringify_def get_property_def split: option.splits jsval.splits)

lemma target_vars_save_plain:
  "''__proto__'' \<notin> set keys \<Longrightarrow>
   JSON_stringify (fst (target_vars vs (Some keys) True)) k =
     (if k \<in> set keys \<and> defined_at vs k then Some (JStr ''*****'') else JSON_stringify vs k)"
  by (simp add: target_vars_def spread_def Let_def fold_secret_step_save_fst JSON_stringify_def)

lemma target_vars_save_secret:
  assumes "distinct keys" "''__proto__'' \<notin> set keys"
  shows "JSON_stringify (snd (target_vars vs (Some keys) True)) k =
     (if k \<in> set keys then JSON_stringify vs k else None)"
proof -
  have own: "snd (target_vars vs (Some keys) True) k =
       (if k \<in> set keys then Some (get_property vs k) else None)"
    using assms by (simp add: target_vars_def spread_def Let_def fold_secret_step_save_snd)
  show ?thesis
  proof (cases "k \<in> set keys")
    case True
    then have "k \<noteq> ''__proto__''" using assms(2) by auto
    from stringify_get_property [OF this, of vs] True own
    show ?thesis by (simp add: JSON_stringify_def [of "snd (target_vars vs (Some keys) True)"])
  next
    case False
    then show ?thesis using own by (simp add: JSON_stringify_def)
  qed
qed

lemma target_vars_drop_plain:
  "JSON_stringify (fst (target_vars vs (Some keys) False)) k =
     (if k \<in> set keys then None else JSON_stringify vs k)"
  using stringify_undefined [of vs k]
  by (auto simp: target_vars_def spread_def Let_def fold_secret_step_drop_fst JSON_stringify_def)

lemma target_vars_drop_secret:
  "JSON_stringify (snd (target_vars vs (Some keys) False)) = Map.empty"
  by (simp add: target_vars_def Let_def fold_secret_step_drop_snd JSON_stringify_def)

lemma find_patch_object:
  "List.find (\<lambda>obj. key_value_string obj = key_value_string body) objs = Some old \<Longrightarrow>
   List.find (\<lambda>obj. key_value_string obj = key_value_string body) (patch_object body objs)
     = Some (old\<lparr>c_vars := c_vars body, c_secretVars := c_secretVars body\<rparr>)"
  by (induction objs) (auto split: if_splits)

lemma find_put_object:
  "List.find (\<lambda>obj. key_value_string obj = key_value_string body) objs = None \<Longrightarrow>
   List.find (\<lambda>obj. key_value_string obj = key_value_string body) (objs @ [body]) = Some body"
  by (induction objs) (auto split: if_splits)

lemma key_feature_body [simp]: "key_value_string (feature_body fname vs sn ss) = fname"
  by (simp add: feature_body_def Let_def)

lemma updateFeatureState_stores:
  assumes "object_status r = Ok"
  shows "\<exists>obj. stored_object (updateFeatureState r fname vs sn ss) fname = Some obj
           \<and> key_value_string obj = fname
           \<and> c_vars obj = c_vars (feature_body fname vs sn ss)
           \<and> c_secretVars obj = c_secretVars (feature_body fname vs sn ss)"
proof (cases "List.find (\<lambda>obj. key_value_string obj = fname) (objects r)")
  case None
  then have "updateFeatureState r fname vs sn ss
               = r\<lparr>objects := objects r @ [feature_body fname vs sn ss]\<rparr>"
    using assms by (simp add: updateFeatureState_def get_object_status_def put_object_def Let_def)
  moreover have "List.find (\<lambda>obj. key_value_string obj = fname) (objects r @ [feature_body fname vs sn ss])
                   = Some (feature_body fname vs sn ss)"
    using find_put_object [of "feature_body fname vs sn ss" "objects r"] None by simp
  ultimately show ?thesis by (simp add: stored_object_def)
next
  case (Some old)
  then have "updateFeatureState r fname vs sn ss
               = r\<lparr>objects := patch_object (feature_body fname vs sn ss) (objects r)\<rparr>"
    using assms by (simp add: updateFeatureState_def get_object_status_def Let_def)
  moreover have "List.find (\<lambda>obj. key_value_string obj = fname)
                   (patch_object (feature_body fname vs sn ss) (objects r))
                   = Some (old\<lparr>c_vars := c_vars (feature_body fname vs sn ss),
                               c_secretVars := c_secretVars (feature_body fname vs sn ss)\<rparr>)"
    using find_patch_object [of "feature_body fname vs sn ss" "objects r" old] Some by simp
  moreover have "key_value_string old = fname"
    using Some by (auto simp: find_Some_iff)
  ultimately show ?thesis by (simp add: stored_object_def)
qed



text \<open>
  C8. For a list of distinct secret names without the name \<open>__proto__\<close>,
  \<open>updateFeatureState\<close> with \<open>saveSecrets = true\<close> writes, for every secret name whose
  variable has a value, the redaction marker \<open>*****\<close> into the plain field \<open>c_vars\<close> and the
  value into the secret field \<open>c_secretVars\<close>; a secret name without a value to store gets
  no entry in the secret field, and the marker in the plain field exactly when
  \<open>vars[name] !== undefined\<close>, which also holds for a name that \<open>Object.prototype\<close>
  provides. With \<open>saveSecrets = false\<close> the plain field has no entry for a secret name and
  the secret field is empty. Every other variable is written to the plain field unchanged
  and never to the secret field. The plain field does not depend on the secret values:
  two variable sets that differ only in the values of their secrets give the same plain
  field. On an accessible store the custom object of the feature holds exactly these two
  fields afterwards.
\<close>

theorem updateFeatureState_secret_fields:
  assumes "distinct keys" "''__proto__'' \<notin> set keys"
  shows
    "(k \<in> set keys \<and> vs k = Some (Val v) \<longrightarrow>
        JSON_stringify (fst (target_vars vs (Some keys) True)) k = Some (JStr ''*****'')
      \<and> JSON_stringify (snd (target_vars vs (Some keys) True)) k = Some v)
   \<and> (k \<in> set keys \<and> JSON_stringify vs k = None \<longrightarrow>
        JSON_stringify (fst (target_vars vs (Some keys) True)) k
          = (if defined_at vs k then Some (JStr ''*****'') else None)
      \<and> JSON_stringify (snd (target_vars vs (Some keys) True)) k = None)
   \<and> (k \<in> set keys \<longrightarrow> JSON_stringify (fst (target_vars vs (Some keys) False)) k = None)
   \<and> JSON_stringify (snd (target_vars vs (Some keys) False)) = Map.empty
   \<and> (k \<notin> set keys \<longrightarrow>
        JSON_stringify (fst (target_vars vs (Some keys) True)) k = JSON_stringify vs k
      \<and> JSON_stringify (snd (target_vars vs (Some keys) True)) k = None
      \<and> JSON_stringify (fst (target_vars vs (Some keys) False)) k = JSON_stringify vs k)
   \<and> ((\<forall>j. j \<notin> set keys \<longrightarrow> vs j = vs' j) \<and> (\<forall>j. j \<in> set keys \<longrightarrow> defined_at vs j = defined_at vs' j) \<longrightarrow>
        JSON_stringify (fst (target_vars vs (Some keys) True))
          = JSON_stringify (fst (target_vars vs' (Some keys) True)))
   \<and> (object_status r = Ok \<longrightarrow>
        (\<exists>obj. stored_object (updateFeatureState r fname vs (Some keys) saveSecrets) fname = Some obj
           \<and> c_vars obj = Some (JSON_stringify (fst (target_vars vs (Some keys) saveSecrets)))
           \<and> c_secretVars obj = Some (JSON_stringify (snd (target_vars vs (Some keys) saveSecrets)))))"
proof -
  note plain = target_vars_save_plain [OF assms(2)]
  note secret = target_vars_save_secret [OF assms]
  have save: "k \<in> set keys \<and> vs k = Some (Val v) \<longrightarrow>
        JSON_stringify (fst (target_vars vs (Some keys) True)) k = Some (JStr ''*****'')
      \<and> JSON_stringify (snd (target_vars vs (Some keys) True)) k = Some v"
  proof
    assume h: "k \<in> set keys \<and> vs k = Some (Val v)"
    then have "defined_at vs k" "JSON_stringify vs k = Some v"
      by (simp_all add: defined_at_def get_property_def JSON_stringify_def)
    with h show "JSON_stringify (fst (target_vars vs (Some keys) True)) k = Some (JStr ''*****'')
      \<and> JSON_stringify (snd (target_vars vs (Some keys) True)) k = Some v"
      by (simp add: plain secret)
  qed
  have bare: "k \<in> set keys \<and> JSON_stringify vs k = None \<longrightarrow>
        JSON_stringify (fst (target_vars vs (Some keys) True)) k
          = (if defined_at vs k then Some (JStr ''*****'') else None)
      \<and> JSON_stringify (snd (target_vars vs (Some keys) True)) k = None"
    by (simp add: plain secret)
  have drop: "k \<in> set keys \<longrightarrow> JSON_stringify (fst (target_vars vs (Some keys) False)) k = None"
    by (simp add: target_vars_drop_plain)
  have others: "k \<notin> set keys \<longrightarrow>
        JSON_stringify (fst (target_vars vs (Some keys) True)) k = JSON_stringify vs k
      \<and> JSON_stringify (snd (target_vars vs (Some keys) True)) k = None
      \<and> JSON_stringify (fst (target_vars vs (Some keys) False)) k = JSON_stringify vs k"
    by (simp add: plain secret target_vars_drop_plain)
  have hidden: "(\<forall>j. j \<notin> set keys \<longrightarrow> vs j = vs' j) \<and> (\<forall>j. j \<in> set keys \<longrightarrow> defined_at vs j = defined_at vs' j) \<longrightarrow>
        JSON_stringify (fst (target_vars vs (Some keys) True))
          = JSON_stringify (fst (target_vars vs' (Some keys) True))"
  proof (intro impI ext)
    fix j
    assume h: "(\<forall>j. j \<notin> set keys \<longrightarrow> vs j = vs' j) \<and> (\<forall>j. j \<in> set keys \<longrightarrow> defined_at vs j = defined_at vs' j)"
    show "JSON_stringify (fst (target_vars vs (Some keys) True)) j
            = JSON_stringify (fst (target_vars vs' (Some keys) True)) j"
    proof (cases "j \<in> set keys")
      case True
      with h have d: "defined_at vs j = defined_at vs' j" by blast
      show ?thesis
        using True d stringify_undefined [of vs j] stringify_undefined [of vs' j]
        by (simp add: target_vars_save_plain [OF assms(2)])
    next
      case False
      with h have "vs j = vs' j" by blast
      then have "JSON_stringify vs j = JSON_stringify vs' j"
        by (simp add: JSON_stringify_def)
      then show ?thesis
        using False by (simp add: target_vars_save_plain [OF assms(2)])
    qed
  qed
  have stored: "object_status r = Ok \<longrightarrow>
        (\<exists>obj. stored_object (updateFeatureState r fname vs (Some keys) saveSecrets) fname = Some obj
           \<and> c_vars obj = Some (JSON_stringify (fst (target_vars vs (Some keys) saveSecrets)))
           \<and> c_secretVars obj = Some (JSON_stringify (snd (target_vars vs (Some keys) saveSecrets))))"
    using updateFeatureState_stores [of r fname vs "Some keys" saveSecrets]
    by (auto simp: feature_body_def Let_def)
  show ?thesis
    using save bare drop target_vars_drop_secret [of vs keys] others hidden stored by blast
qed

theorem updateFeatureState_secret_fields_witness:
  "distinct [''token'']
   \<and> JSON_stringify (fst (target_vars [''token'' \<mapsto> Val (JStr ''abc'')] (Some [''token'']) True)) ''token''
       = Some (JStr ''*****'')
   \<and> JSON_stringify (snd (target_vars [''token'' \<mapsto> Val (JStr ''abc'')] (Some [''token'']) True)) ''token''
       = Some (JStr ''abc'')
   \<and> JSON_stringify (fst (target_vars [''token'' \<mapsto> Val (JStr ''abc'')] (Some [''token'']) False)) ''token''
       = None
   \<and> JSON_stringify (snd (target_vars [''token'' \<mapsto> Val (JStr ''abc'')] (Some [''token'']) False)) = Map.empty
   \<and> JSON_stringify (fst (target_vars [''token'' \<mapsto> Val (JStr ''abc'')] (Some [''token'']) True))
       = JSON_stringify (fst (target_vars [''token'' \<mapsto> Val (JStr ''xyz'')] (Some [''token'']) True))
   \<and> JSON_stringify (fst (target_vars Map.empty (Some [''constructor'']) True)) ''constructor''
       = Some (JStr ''*****'')
   \<and> JSON_stringify (snd (target_vars Map.empty (Some [''constructor'']) True)) ''constructor'' = None"
proof -
  let ?vs = "[''token'' \<mapsto> Val (JStr ''abc'')]"
  let ?vs' = "[''token'' \<mapsto> Val (JStr ''xyz'')]"
  have d: "distinct [''token'']"
    by simp
  have p: "''__proto__'' \<notin> set [''token'']"
    by simp
  have h1: "''token'' \<in> set [''token''] \<and> ?vs ''token'' = Some (Val (JStr ''abc''))"
    by simp
  have h2: "(\<forall>j. j \<notin> set [''token''] \<longrightarrow> ?vs j = ?vs' j)
          \<and> (\<forall>j. j \<in> set [''token''] \<longrightarrow> defined_at ?vs j = defined_at ?vs' j)"
    by (simp add: defined_at_def get_property_def)
  have d': "distinct [''constructor'']"
    by simp
  have p': "''__proto__'' \<notin> set [''constructor'']"
    by simp
  have h3: "''constructor'' \<in> set [''constructor'']
          \<and> JSON_stringify (Map.empty :: jsobject) ''constructor'' = None
          \<and> defined_at Map.empty ''constructor''"
    by (simp add: JSON_stringify_def defined_at_def get_property_def object_prototype_keys_def)
  let ?tok = "JSON_stringify (fst (target_vars ?vs (Some [''token'']) True)) ''token'' = Some (JStr ''*****'')
      \<and> JSON_stringify (snd (target_vars ?vs (Some [''token'']) True)) ''token'' = Some (JStr ''abc'')
      \<and> JSON_stringify (fst (target_vars ?vs (Some [''token'']) False)) ''token'' = None
      \<and> JSON_stringify (snd (target_vars ?vs (Some [''token'']) False)) = Map.empty
      \<and> JSON_stringify (fst (target_vars ?vs (Some [''token'']) True))
           = JSON_stringify (fst (target_vars ?vs' (Some [''token'']) True))"
  let ?con = "JSON_stringify (fst (target_vars Map.empty (Some [''constructor'']) True)) ''constructor''
          = (if defined_at Map.empty ''constructor'' then Some (JStr ''*****'') else None)
      \<and> JSON_stringify (snd (target_vars Map.empty (Some [''constructor'']) True)) ''constructor'' = None"
  have t: ?tok
    using updateFeatureState_secret_fields
            [OF d p, where k = "''token''" and v = "JStr ''abc''" and vs = ?vs and vs' = ?vs']
          h1 h2
    by blast
  have c: ?con
    using updateFeatureState_secret_fields
            [OF d' p', where k = "''constructor''" and vs = Map.empty]
          h3
    by blast
  have c': "JSON_stringify (fst (target_vars Map.empty (Some [''constructor'']) True)) ''constructor''
          = Some (JStr ''*****'')"
    using c h3 by simp
  show ?thesis
    using d p t c c' by blast
qed

text \<open>
  The claim as stated fails for a name that the list holds twice: the second pass finds
  the marker in \<open>targetVars\<close> and copies it into the secret field, so the value is stored
  nowhere. It fails for the name \<open>__proto__\<close> too: the assignment to \<open>targetSecretVars\<close>
  calls the setter of \<open>Object.prototype\<close>, which stores nothing for a string.
\<close>

theorem updateFeatureState_repeated_secret_counterexample:
  "stored_plain (updateFeatureState empty_feature_store ''f'' [''token'' \<mapsto> Val (JStr ''abc'')]
                   (Some [''token'', ''token'']) True) ''f'' ''token'' = Some (JStr ''*****'')
   \<and> stored_secret (updateFeatureState empty_feature_store ''f'' [''token'' \<mapsto> Val (JStr ''abc'')]
                   (Some [''token'', ''token'']) True) ''f'' ''token'' = Some (JStr ''*****'')
   \<and> stored_plain (updateFeatureState empty_feature_store ''f'' [''__proto__'' \<mapsto> Val (JStr ''abc'')]
                   (Some [''__proto__'']) True) ''f'' ''__proto__'' = Some (JStr ''*****'')
   \<and> stored_secret (updateFeatureState empty_feature_store ''f'' [''__proto__'' \<mapsto> Val (JStr ''abc'')]
                   (Some [''__proto__'']) True) ''f'' ''__proto__'' = None"
  by code_simp

lemma find_map_feature:
  "List.find (\<lambda>f. featureName f = n) (map featureStateFromCustomObject objs)
     = map_option featureStateFromCustomObject (List.find (\<lambda>obj. key_value_string obj = n) objs)"
  by (induction objs) (simp_all add: featureStateFromCustomObject_def Let_def)

lemma vars_featureStateFromCustomObject:
  "vars (featureStateFromCustomObject obj) k =
     (case (case c_secretVars obj of None \<Rightarrow> None | Some d \<Rightarrow> d k) of
        Some v \<Rightarrow> Some (Val v)
      | None \<Rightarrow> (case c_vars obj of None \<Rightarrow> None | Some d \<Rightarrow> map_option Val (d k)))"
  by (simp add: featureStateFromCustomObject_def Let_def spread_def JSON_parse_def map_add_def
           split: option.splits)


text \<open>
  C10. The variables read back from a custom object are the plain field overlaid by the
  secret field, the secret field winning where both have the key. So a feature written
  with \<open>saveSecrets = true\<close> (distinct secret names without the name \<open>__proto__\<close>,
  accessible store) is read back by \<open>getInstanceFeatureState\<close> with every variable that has
  a value at its original value, each secret among them and not the marker; a secret name
  without a value to store reads back as the marker when \<open>vars[name] !== undefined\<close>, and
  as nothing otherwise.
\<close>

theorem featureState_read_back_distinct:
  "vars (featureStateFromCustomObject obj) k =
     (case (case c_secretVars obj of None \<Rightarrow> None | Some d \<Rightarrow> d k) of
        Some v \<Rightarrow> Some (Val v)
      | None \<Rightarrow> (case c_vars obj of None \<Rightarrow> None | Some d \<Rightarrow> map_option Val (d k)))
   \<and> (distinct keys \<and> ''__proto__'' \<notin> set keys
      \<and> prefs_status r = Ok \<and> search_status r = Ok \<and> object_status r = Ok \<longrightarrow>
        (\<exists>st fs. getInstanceFeatureState (updateFeatureState r fname vs (Some keys) True) = Inr (Some st)
           \<and> find_feature (features st) fname = Some fs
           \<and> (\<forall>j. vars fs j =
                 (case JSON_stringify vs j of
                    Some v \<Rightarrow> Some (Val v)
                  | None \<Rightarrow> if j \<in> set keys \<and> defined_at vs j
                            then Some (Val (JStr ''*****'')) else None))
           \<and> (\<forall>j v. vs j = Some (Val v) \<longrightarrow> vars fs j = Some (Val v))))"
proof (intro conjI impI)
  show "vars (featureStateFromCustomObject obj) k =
     (case (case c_secretVars obj of None \<Rightarrow> None | Some d \<Rightarrow> d k) of
        Some v \<Rightarrow> Some (Val v)
      | None \<Rightarrow> (case c_vars obj of None \<Rightarrow> None | Some d \<Rightarrow> map_option Val (d k)))"
    by (rule vars_featureStateFromCustomObject)
next
  assume h: "distinct keys \<and> ''__proto__'' \<notin> set keys
      \<and> prefs_status r = Ok \<and> search_status r = Ok \<and> object_status r = Ok"
  then have dk: "distinct keys" and np: "''__proto__'' \<notin> set keys" by simp_all
  let ?r' = "updateFeatureState r fname vs (Some keys) True"
  obtain ob where ob: "stored_object ?r' fname = Some ob"
      "c_vars ob = c_vars (feature_body fname vs (Some keys) True)"
      "c_secretVars ob = c_secretVars (feature_body fname vs (Some keys) True)"
    using updateFeatureState_stores [of r fname vs "Some keys" True] h by blast
  have st: "prefs_status ?r' = Ok" "search_status ?r' = Ok"
    using h by (simp_all add: updateFeatureState_def Let_def)
  have ne: "objects ?r' \<noteq> []"
    using ob(1) by (auto simp: stored_object_def)
  let ?st = "\<lparr>b2cToolsFeaturesVersion = c_b2cToolsFeaturesVersion ?r',
              b2cToolsFeaturesBootstrappedClientIDs = c_b2cToolsFeaturesBootstrappedClientIDs ?r',
              features = map featureStateFromCustomObject (objects ?r')\<rparr>"
  have rd: "getInstanceFeatureState ?r' = Inr (Some ?st)"
    using st ne by (simp add: getInstanceFeatureState_def)
  have ff: "find_feature (features ?st) fname = Some (featureStateFromCustomObject ob)"
    using ob(1) by (simp add: find_feature_def find_map_feature stored_object_def)
  have each: "vars (featureStateFromCustomObject ob) j =
                 (case JSON_stringify vs j of
                    Some v \<Rightarrow> Some (Val v)
                  | None \<Rightarrow> if j \<in> set keys \<and> defined_at vs j
                            then Some (Val (JStr ''*****'')) else None)" for j
    by (cases "JSON_stringify vs j")
       (simp_all add: vars_featureStateFromCustomObject ob(2,3) feature_body_def Let_def
          target_vars_save_plain [OF np] target_vars_save_secret [OF dk np])
  have "vars (featureStateFromCustomObject ob) j = Some (Val v)" if "vs j = Some (Val v)" for j v
    using that by (simp add: each JSON_stringify_def)
  with rd ff each
  show "\<exists>st fs. getInstanceFeatureState ?r' = Inr (Some st)
           \<and> find_feature (features st) fname = Some fs
           \<and> (\<forall>j. vars fs j =
                 (case JSON_stringify vs j of
                    Some v \<Rightarrow> Some (Val v)
                  | None \<Rightarrow> if j \<in> set keys \<and> defined_at vs j
                            then Some (Val (JStr ''*****'')) else None))
           \<and> (\<forall>j v. vs j = Some (Val v) \<longrightarrow> vars fs j = Some (Val v))"
    by blast
qed

theorem featureState_read_back_distinct_witness:
  "distinct [''token'']
   \<and> (\<exists>st fs. getInstanceFeatureState
                 (updateFeatureState empty_feature_store
                    ''f'' [''token'' \<mapsto> Val (JStr ''abc'')] (Some [''token'']) True) = Inr (Some st)
         \<and> find_feature (features st) ''f'' = Some fs
         \<and> vars fs ''token'' = Some (Val (JStr ''abc'')))"
proof -
  let ?r = empty_feature_store
  let ?vs = "[''token'' \<mapsto> Val (JStr ''abc'')]"
  have h: "distinct [''token''] \<and> ''__proto__'' \<notin> set [''token'']
         \<and> prefs_status ?r = Ok \<and> search_status ?r = Ok \<and> object_status ?r = Ok"
    by (simp add: empty_feature_store_def)
  have m: "?vs ''token'' = Some (Val (JStr ''abc''))"
    by simp
  show ?thesis
    using featureState_read_back_distinct
            [where keys = "[''token'']" and r = ?r and vs = ?vs and fname = "''f''"]
          h m
    by blast
qed

text \<open>
  The claim as stated fails for a secret name that the list holds twice, and for the
  secret name \<open>__proto__\<close>: the secret field does not hold the value, and the marker of
  the plain field is read back.
\<close>

theorem featureState_repeated_secret_counterexample:
  "read_variable (updateFeatureState empty_feature_store ''f'' [''token'' \<mapsto> Val (JStr ''abc'')]
                    (Some [''token'', ''token'']) True) ''f'' ''token'' = Some (Val (JStr ''*****''))
   \<and> read_variable (updateFeatureState empty_feature_store ''f'' [''__proto__'' \<mapsto> Val (JStr ''abc'')]
                    (Some [''__proto__'']) True) ''f'' ''__proto__'' = Some (Val (JStr ''*****''))"
  by code_simp

subsection \<open>The extension of a file name\<close>

lemma preDotState_same: "preDotState s = v \<Longrightarrow> s\<lparr>preDotState := v\<rparr> = s"
  by (cases s) simp

lemma extname_loop_after_dot:
  "startDot s \<noteq> - 1 \<Longrightarrow> endPos s \<noteq> - 1 \<Longrightarrow> CHR ''/'' \<notin> set front \<Longrightarrow>
   extname_loop front s =
     s\<lparr>preDotState := (if front = [] then preDotState s
                        else if last front = CHR ''.'' then 1 else - 1)\<rparr>"
proof (induction front arbitrary: s)
  case Nil
  show ?case by simp
next
  case (Cons c front)
  let ?s2 = "s\<lparr>preDotState := (if c = CHR ''.'' then 1 else - 1)\<rparr>"
  have step: "extname_loop (c # front) s = extname_loop front ?s2"
    using Cons.prems by (auto simp: Let_def preDotState_same)
  have "extname_loop front ?s2 =
          ?s2\<lparr>preDotState := (if front = [] then preDotState ?s2
                              else if last front = CHR ''.'' then 1 else - 1)\<rparr>"
    using Cons.prems by (intro Cons.IH) simp_all
  then show ?case
    using step by simp
qed

lemma extname_loop_before_dot:
  "startDot s = - 1 \<Longrightarrow> \<forall>c \<in> set xs. c \<noteq> CHR ''.'' \<and> c \<noteq> CHR ''/'' \<Longrightarrow>
   extname_loop (xs @ rest) s =
     extname_loop rest
       (if xs = [] \<or> endPos s \<noteq> - 1 then s
        else s\<lparr>endPos := int (length (xs @ rest)), matchedSlash := False\<rparr>)"
proof (induction xs arbitrary: s)
  case Nil
  show ?case by simp
next
  case (Cons c xs)
  let ?s1 = "if endPos s = - 1 then s\<lparr>endPos := int (length (xs @ rest)) + 1, matchedSlash := False\<rparr> else s"
  have step: "extname_loop ((c # xs) @ rest) s = extname_loop (xs @ rest) ?s1"
    using Cons.prems by (auto simp: Let_def)
  have "extname_loop (xs @ rest) ?s1 =
          extname_loop rest
            (if xs = [] \<or> endPos ?s1 \<noteq> - 1 then ?s1
             else ?s1\<lparr>endPos := int (length (xs @ rest)), matchedSlash := False\<rparr>)"
    using Cons.prems by (intro Cons.IH) auto
  moreover have "endPos ?s1 \<noteq> - 1"
    by simp
  ultimately show ?case
    using step by (simp add: add.commute)
qed

lemma extname_no_dot:
  assumes "CHR ''.'' \<notin> set n" "CHR ''/'' \<notin> set n"
  shows "extname n = []"
proof -
  let ?init = "\<lparr>startDot = - 1, startPart = 0, endPos = - 1, matchedSlash = True, preDotState = 0\<rparr>"
  have "extname_loop (rev n @ []) ?init =
          extname_loop [] (if rev n = [] \<or> endPos ?init \<noteq> - 1 then ?init
             else ?init\<lparr>endPos := int (length (rev n @ [])), matchedSlash := False\<rparr>)"
    using assms by (intro extname_loop_before_dot) auto
  then have "startDot (extname_loop (rev n) ?init) = - 1"
    by simp
  then show ?thesis
    by (simp add: extname_def Let_def)
qed

lemma extname_last_dot:
  assumes "CHR ''/'' \<notin> set stem" "CHR ''/'' \<notin> set suf" "CHR ''.'' \<notin> set suf"
  shows "extname (stem @ CHR ''.'' # suf) =
           (if stem = [] \<or> (stem = ''.'' \<and> suf = []) then [] else CHR ''.'' # suf)"
proof -
  let ?init = "\<lparr>startDot = - 1, startPart = 0, endPos = - 1, matchedSlash = True, preDotState = 0\<rparr>"
  let ?n = "stem @ CHR ''.'' # suf"
  let ?len = "int (length stem) + 1 + int (length suf)"
  let ?s0 = "if rev suf = [] \<or> endPos ?init \<noteq> - 1 then ?init
             else ?init\<lparr>endPos := int (length (rev suf @ CHR ''.'' # rev stem)), matchedSlash := False\<rparr>"
  have a: "extname_loop (rev suf @ CHR ''.'' # rev stem) ?init = extname_loop (CHR ''.'' # rev stem) ?s0"
    using assms by (intro extname_loop_before_dot) auto
  let ?s2 = "\<lparr>startDot = int (length stem), startPart = 0, endPos = ?len, matchedSlash = False, preDotState = 0\<rparr>"
  have b: "extname_loop (CHR ''.'' # rev stem) ?s0 = extname_loop (rev stem) ?s2"
    by (simp add: Let_def ac_simps)
  have c: "extname_loop (rev stem) ?s2 =
             ?s2\<lparr>preDotState := (if rev stem = [] then preDotState ?s2
                                 else if last (rev stem) = CHR ''.'' then 1 else - 1)\<rparr>"
    using assms by (intro extname_loop_after_dot) auto
  have fin: "extname_loop (rev ?n) ?init =
               ?s2\<lparr>preDotState := (if stem = [] then 0 else if hd stem = CHR ''.'' then 1 else - 1)\<rparr>"
    using a b c by (simp add: last_rev)
  have sl: "take (nat (?len - int (length stem))) (drop (nat (int (length stem))) ?n) = CHR ''.'' # suf"
    by simp
  show ?thesis
  proof (cases stem)
    case Nil
    then show ?thesis using fin by (simp add: extname_def Let_def)
  next
    case (Cons h t)
    then show ?thesis
      using fin sl by (cases t) (auto simp: extname_def Let_def)
  qed
qed

lemma extname_js_iff:
  assumes "CHR ''/'' \<notin> set n"
  shows "extname n = ''.js'' \<longleftrightarrow> (\<exists>stem. stem \<noteq> [] \<and> n = stem @ ''.js'')"
proof
  assume e: "extname n = ''.js''"
  have "CHR ''.'' \<in> set n"
    using e extname_no_dot [of n] assms by auto
  then obtain stem suf where n: "n = stem @ CHR ''.'' # suf" and suf: "CHR ''.'' \<notin> set suf"
    by (auto dest: split_list_last)
  have "extname n = (if stem = [] \<or> (stem = ''.'' \<and> suf = []) then [] else CHR ''.'' # suf)"
    using extname_last_dot [of stem suf] assms n suf by simp
  with e have "stem \<noteq> []" "suf = ''js''"
    by (auto split: if_splits)
  with n show "\<exists>stem. stem \<noteq> [] \<and> n = stem @ ''.js''"
    by auto
next
  assume "\<exists>stem. stem \<noteq> [] \<and> n = stem @ ''.js''"
  then obtain stem where s: "stem \<noteq> []" "n = stem @ CHR ''.'' # ''js''"
    by auto
  then show "extname n = ''.js''"
    using extname_last_dot [of stem "''js''"] assms by simp
qed


subsection \<open>Sorting with a comparator\<close>

lemma mset_insert_sorted: "mset (insert_sorted cmp x ys) = add_mset x (mset ys)"
  by (induction ys) simp_all

lemma mset_array_sort: "mset (array_sort cmp xs) = mset xs"
  by (induction xs) (simp_all add: array_sort_def mset_insert_sorted)

lemma set_insert_sorted: "set (insert_sorted cmp x ys) = insert x (set ys)"
  by (induction ys) auto

lemma sorted_insert_sorted:
  assumes "consistent_comparator cmp" "sorted_wrt (\<lambda>a b. cmp a b \<le> 0) ys"
  shows "sorted_wrt (\<lambda>a b. cmp a b \<le> 0) (insert_sorted cmp x ys)"
  using assms(2)
proof (induction ys)
  case Nil
  show ?case by simp
next
  case (Cons y ys)
  have tot: "\<not> cmp x y \<le> 0 \<Longrightarrow> cmp y x \<le> 0"
    using assms(1) unfolding consistent_comparator_def by (metis not_le order_less_imp_le)
  have tr: "\<And>a b c. cmp a b \<le> 0 \<Longrightarrow> cmp b c \<le> 0 \<Longrightarrow> cmp a c \<le> 0"
    using assms(1) unfolding consistent_comparator_def by blast
  show ?case
  proof (cases "cmp x y \<le> 0")
    case True
    then show ?thesis
      using Cons.prems tr by auto
  next
    case False
    then show ?thesis
      using Cons tot by (auto simp: set_insert_sorted)
  qed
qed

lemma sorted_array_sort:
  "consistent_comparator cmp \<Longrightarrow> sorted_wrt (\<lambda>a b. cmp a b \<le> 0) (array_sort cmp xs)"
  by (induction xs) (simp_all add: array_sort_def sorted_insert_sorted)


lemma code_compare_flip: "(code_compare a b < 0) = (code_compare b a > 0)"
proof (induction a b rule: code_compare.induct)
  case (4 a as b bs)
  show ?case
  proof (cases "(of_char a :: nat) < of_char b")
    case True
    then show ?thesis by simp
  next
    case False
    note nlt = this
    show ?thesis
    proof (cases "(of_char b :: nat) < of_char a")
      case True
      then show ?thesis using nlt by simp
    next
      case False
      then show ?thesis using nlt 4 by simp
    qed
  qed
qed simp_all

lemma code_compare_trans:
  "code_compare a b \<le> 0 \<Longrightarrow> code_compare b c \<le> 0 \<Longrightarrow> code_compare a c \<le> 0"
proof (induction a b arbitrary: c rule: code_compare.induct)
  case 1
  then show ?case by simp
next
  case (2 b bs)
  then show ?case by (cases c) simp_all
next
  case (3 a as)
  then show ?case by simp
next
  case (4 a as b bs)
  show ?case
  proof (cases c)
    case Nil
    then show ?thesis using 4 by simp
  next
    case (Cons x xs)
    have ab: "(of_char a :: nat) \<le> of_char b"
      using "4.prems"(1) by (simp split: if_splits)
    have bx: "(of_char b :: nat) \<le> of_char x"
      using "4.prems"(2) Cons by (simp split: if_splits)
    show ?thesis
    proof (cases "(of_char a :: nat) < of_char x")
      case True
      then show ?thesis using Cons by simp
    next
      case False
      then have "(of_char a :: nat) = of_char b" "(of_char b :: nat) = of_char x"
        using ab bx by linarith+
      then have eq: "a = b" "b = x"
        by simp_all
      then have "code_compare as bs \<le> 0" "code_compare bs xs \<le> 0"
        using "4.prems" Cons by simp_all
      then have "code_compare as xs \<le> 0"
        using "4.IH" eq by simp
      then show ?thesis using Cons eq by simp
    qed
  qed
qed

lemma consistent_code_compare: "consistent_comparator code_compare"
  unfolding consistent_comparator_def
  using code_compare_flip code_compare_trans by blast


subsection \<open>The catalog of migrations\<close>

lemma sorted_wrt_unique:
  assumes anti: "\<And>a b. le a b \<Longrightarrow> le b a \<Longrightarrow> a = b"
  shows "sorted_wrt le xs \<Longrightarrow> sorted_wrt le ys \<Longrightarrow> mset xs = mset ys \<Longrightarrow> xs = ys"
proof (induction xs arbitrary: ys)
  case Nil
  then show ?case by simp
next
  case (Cons x xs)
  then obtain y ys' where ys: "ys = y # ys'"
    by (cases ys) auto
  have "x \<in> set ys"
    using Cons.prems(3) by (metis list.set_intros(1) set_mset_mset)
  then have a: "x = y \<or> le y x"
    using Cons.prems(2) ys by auto
  have "y \<in> set (x # xs)"
    using Cons.prems(3) ys by (metis list.set_intros(1) set_mset_mset)
  then have b: "y = x \<or> le x y"
    using Cons.prems(1) by auto
  have xy: "x = y"
    using a b anti by blast
  then have "mset xs = mset ys'"
    using Cons.prems(3) ys by simp
  then have "xs = ys'"
    using Cons.IH [of ys'] Cons.prems(1,2) ys by simp
  then show ?case using xy ys by simp
qed

lemma collectMigrations_order_free:
  assumes c: "consistent_comparator cmp" and anti: "\<forall>a b. cmp a b = 0 \<longrightarrow> a = b"
    and m: "mset entries' = mset entries"
  shows "collectMigrations rm cmp entries' excl = collectMigrations rm cmp entries excl"
proof -
  let ?le = "\<lambda>a b. cmp a b \<le> 0"
  have a: "\<And>a b. ?le a b \<Longrightarrow> ?le b a \<Longrightarrow> a = b"
  proof -
    fix a b
    assume "cmp a b \<le> 0" "cmp b a \<le> 0"
    moreover have "(cmp a b < 0) = (cmp b a > 0)"
      using c unfolding consistent_comparator_def by blast
    ultimately have "cmp a b = 0" by linarith
    then show "a = b" using anti by blast
  qed
  have s: "sorted_wrt ?le (collectMigrations rm cmp es excl)" for es
    unfolding collectMigrations_def by (rule sorted_array_sort [OF c])
  have "mset (collectMigrations rm cmp entries' excl) = mset (collectMigrations rm cmp entries excl)"
    unfolding collectMigrations_def mset_array_sort mset_map mset_filter m ..
  then show ?thesis
    using sorted_wrt_unique [of ?le, OF a s s] by blast
qed

lemma code_compare_zero: "code_compare a b = 0 \<Longrightarrow> a = b"
  by (induction a b rule: code_compare.induct) (auto split: if_splits)

lemma collect_filter:
  assumes "\<forall>d \<in> set entries. CHR ''/'' \<notin> set (name d)"
  shows "filter (\<lambda>entry. name entry \<noteq> ''setup.js'')
           (filter (\<lambda>d. (isDirectory d \<or> extname (name d) = ''.js'')
                          \<and> list_all (\<lambda>re. \<not> rm re (name d)) excl) entries)
         = filter (\<lambda>d. (isDirectory d \<or> (\<exists>stem. stem \<noteq> [] \<and> name d = stem @ ''.js''))
                        \<and> name d \<noteq> ''setup.js''
                        \<and> (\<forall>re \<in> set excl. \<not> rm re (name d))) entries"
proof -
  have "\<And>d. d \<in> set entries \<Longrightarrow>
          (extname (name d) = ''.js'') = (\<exists>stem. stem \<noteq> [] \<and> name d = stem @ ''.js'')"
    using assms extname_js_iff by blast
  then show ?thesis
    by (auto simp: list_all_iff intro!: filter_cong)
qed

text \<open>
  C6 (as amended). For a consistent comparator and a listing of directory entries (names
  without \<open>/\<close>), \<open>collectMigrations\<close> returns, each as often as it is listed, exactly the
  names of the entries that are directories or files whose name is a non-empty stem
  followed by \<open>.js\<close>, that are not named \<open>setup.js\<close> and that no exclusion pattern
  matches; the result is ascending for the comparator; and when the comparator puts
  \<open>10-foo\<close> before \<open>2-foo\<close>, as a comparison without numeric collation does, \<open>2-foo\<close>
  never precedes \<open>10-foo\<close> in the result. The result is a function of the listing, the
  patterns and the two runtime functions, so a second call on the same entries returns
  the same sequence; and when the comparator has no ties between different names, the
  same entries listed in another order give the same sequence too.
\<close>

theorem collectMigrations_catalog:
  assumes "consistent_comparator cmp" and "\<forall>d \<in> set entries. CHR ''/'' \<notin> set (name d)"
  shows "mset (collectMigrations rm cmp entries excl) =
           mset (map name
             (filter (\<lambda>d. (isDirectory d \<or> (\<exists>stem. stem \<noteq> [] \<and> name d = stem @ ''.js''))
                          \<and> name d \<noteq> ''setup.js''
                          \<and> (\<forall>re \<in> set excl. \<not> rm re (name d))) entries))
       \<and> sorted_wrt (\<lambda>a b. cmp a b \<le> 0) (collectMigrations rm cmp entries excl)
       \<and> (cmp ''10-foo'' ''2-foo'' < 0 \<longrightarrow>
            \<not> (\<exists>xs ys zs. collectMigrations rm cmp entries excl = xs @ ''2-foo'' # ys @ ''10-foo'' # zs))
       \<and> ((\<forall>a b. cmp a b = 0 \<longrightarrow> a = b) \<and> mset entries' = mset entries \<longrightarrow>
            collectMigrations rm cmp entries' excl = collectMigrations rm cmp entries excl)"
proof (intro conjI impI)
  show "mset (collectMigrations rm cmp entries excl) =
           mset (map name
             (filter (\<lambda>d. (isDirectory d \<or> (\<exists>stem. stem \<noteq> [] \<and> name d = stem @ ''.js''))
                          \<and> name d \<noteq> ''setup.js''
                          \<and> (\<forall>re \<in> set excl. \<not> rm re (name d))) entries))"
    unfolding collectMigrations_def mset_array_sort collect_filter [OF assms(2)] ..
  show sorted: "sorted_wrt (\<lambda>a b. cmp a b \<le> 0) (collectMigrations rm cmp entries excl)"
    unfolding collectMigrations_def by (rule sorted_array_sort [OF assms(1)])
  assume lt: "cmp ''10-foo'' ''2-foo'' < 0"
  show "\<not> (\<exists>xs ys zs. collectMigrations rm cmp entries excl = xs @ ''2-foo'' # ys @ ''10-foo'' # zs)"
  proof
    assume "\<exists>xs ys zs. collectMigrations rm cmp entries excl = xs @ ''2-foo'' # ys @ ''10-foo'' # zs"
    then obtain xs ys zs where
      "collectMigrations rm cmp entries excl = xs @ ''2-foo'' # ys @ ''10-foo'' # zs" by blast
    with sorted have "cmp ''2-foo'' ''10-foo'' \<le> 0"
      by (simp add: sorted_wrt_append)
    moreover have "cmp ''2-foo'' ''10-foo'' > 0"
      using lt assms(1) unfolding consistent_comparator_def by blast
    ultimately show False by simp
  qed
next
  assume "(\<forall>a b. cmp a b = 0 \<longrightarrow> a = b) \<and> mset entries' = mset entries"
  then show "collectMigrations rm cmp entries' excl = collectMigrations rm cmp entries excl"
    using collectMigrations_order_free [OF assms(1)] by blast
qed

theorem collectMigrations_catalog_witness:
  "consistent_comparator code_compare
   \<and> collectMigrations (\<lambda>re n. re = n) code_compare example_entries [''old''] = [''10-foo'', ''2-foo'', ''3-bar.js'']
   \<and> sorted_wrt (\<lambda>a b. code_compare a b \<le> 0)
        (collectMigrations (\<lambda>re n. re = n) code_compare example_entries [''old''])
   \<and> code_compare ''10-foo'' ''2-foo'' < 0
   \<and> \<not> (\<exists>xs ys zs. collectMigrations (\<lambda>re n. re = n) code_compare example_entries [''old'']
            = xs @ ''2-foo'' # ys @ ''10-foo'' # zs)
   \<and> collectMigrations (\<lambda>re n. re = n) code_compare (rev example_entries) [''old'']
       = collectMigrations (\<lambda>re n. re = n) code_compare example_entries [''old'']"
proof -
  have z: "(\<forall>a b. code_compare a b = 0 \<longrightarrow> a = b) \<and> mset (rev example_entries) = mset example_entries"
    using code_compare_zero by simp
  have h: "\<forall>d \<in> set example_entries. CHR ''/'' \<notin> set (name d)"
    by (simp add: example_entries_def)
  have lt: "code_compare ''10-foo'' ''2-foo'' < 0"
    by simp
  have ev: "collectMigrations (\<lambda>re n. re = n) code_compare example_entries [''old'']
              = [''10-foo'', ''2-foo'', ''3-bar.js'']"
    by code_simp
  show ?thesis
    using collectMigrations_catalog [OF consistent_code_compare h, of "\<lambda>re n. re = n" "[''old'']"
            "rev example_entries"]
          consistent_code_compare lt ev z
    by blast
qed

text \<open>
  The claim as stated fails for a file named \<open>.js\<close>: its name ends in \<open>.js\<close>, but
  \<open>path.extname\<close> gives a dot file no extension, so it is not collected.
\<close>

theorem collectMigrations_dotfile_counterexample:
  "(\<exists>stem. ''.js'' = stem @ ''.js'') \<and> ''.js'' \<noteq> ''setup.js''
   \<and> ''.js'' \<notin> set (collectMigrations (\<lambda>re n. False) code_compare
                        [\<lparr>name = ''.js'', isDirectory = False\<rparr>] [])"
  by (simp add: collectMigrations_def array_sort_def extname_def)

subsection \<open>Invariants of a run\<close>

lemma set_fold_set_add: "set (fold set_add xs seen) = set seen \<union> set xs"
  by (induction xs arbitrary: seen) (auto simp: set_add_def)

lemma distinct_fold_set_add: "distinct seen \<Longrightarrow> distinct (fold set_add xs seen)"
  by (induction xs arbitrary: seen) (auto simp: set_add_def)

lemma set_array_from_set [simp]: "set (array_from_set xs) = set xs"
  by (simp add: array_from_set_def set_fold_set_add)

lemma distinct_array_from_set [simp]: "distinct (array_from_set xs)"
  by (simp add: array_from_set_def distinct_fold_set_add)


lemma reread_ids_append [simp]: "reread_ids (cs @ ds) = reread_ids cs \<union> reread_ids ds"
  by (auto simp: reread_ids_def)

lemma reread_ids_single [simp]:
  "reread_ids [c] = (case reread c of None \<Rightarrow> {} | Some fresh \<Rightarrow> set fresh)"
  by (simp add: reread_ids_def)

lemma reread_ids_Nil [simp]: "reread_ids [] = {}"
  by (simp add: reread_ids_def)


lemma writes_from_snoc:
  "writes_from known (cs @ [c]) \<longleftrightarrow>
     writes_from known cs \<and> set (written c) \<subseteq> known \<union> reread_ids (cs @ [c])"
  by (induction cs arbitrary: known) (auto simp: Let_def reread_ids_def)


lemma after_commit_frame:
  assumes "after_commit e opts m st = (st', out)"
  shows "inst st' = inst st" "instanceMigrations st' = instanceMigrations st"
    "commits st' = commits st" "attempted st' = attempted st" "bootstraps st' = bootstraps st"
    "migrationsRan st' = (if out = None then migrationsRan st @ [m] else migrationsRan st)"
  using assms by (auto simp: after_commit_def split: option.splits outcome.splits)

lemma run_inv_cong:
  "instanceMigrations st' = instanceMigrations st \<Longrightarrow> commits st' = commits st \<Longrightarrow>
   run_inv base catalog st' = run_inv base catalog st"
  by (simp add: run_inv_def)

lemma run_inv_push:
  assumes "run_inv base catalog st" "m \<in> set catalog"
  shows "run_inv base catalog (st\<lparr>instanceMigrations := instanceMigrations st @ [m]\<rparr>)"
  using assms unfolding run_inv_def by simp blast

lemma run_inv_commit_record:
  assumes inv: "run_inv base catalog st"
    and m: "m \<in> set catalog"
    and ok: "commit_ok c"
    and mem: "memory c = instanceMigrations st @ [m]"
    and wr: "set (written c) = (case reread c of None \<Rightarrow> {} | Some fresh \<Rightarrow> set fresh) \<union> set (memory c)"
  shows "run_inv base catalog
           (st\<lparr>inst := r, instanceMigrations := written c, commits := commits st @ [c]\<rparr>)"
proof -
  have sub: "set (instanceMigrations st) \<subseteq> set (written c)"
    using mem wr by auto
  have up: "set (written c) \<subseteq> set base \<union> set catalog \<union> reread_ids (commits st @ [c])"
    using inv m mem wr unfolding run_inv_def by (auto split: option.splits)
  show ?thesis
    using inv sub up ok unfolding run_inv_def trace_inv_def
    by (simp add: sorted_wrt_append writes_from_snoc) blast
qed

lemma run_inv_commit:
  assumes inv: "run_inv base catalog st" and m: "m \<in> set catalog"
    and c: "commit e opts m st = (st', out)"
  shows "(out = None \<longrightarrow> run_inv base catalog st') \<and> trace_inv base catalog (commits st')"
proof (cases "willApply opts")
  case False
  then have ac: "after_commit e opts m (st\<lparr>instanceMigrations := instanceMigrations st @ [m]\<rparr>) = (st', out)"
    using c by (simp add: commit_def)
  have "run_inv base catalog (st\<lparr>instanceMigrations := instanceMigrations st @ [m]\<rparr>)"
    using inv m by (rule run_inv_push)
  then have "run_inv base catalog st'"
    using after_commit_frame [OF ac] by (simp add: run_inv_def)
  then show ?thesis by (simp add: run_inv_def)
next
  case True
  let ?r1 = "interfere e m (inst st)"
  let ?pushed = "instanceMigrations st @ [m]"
  show ?thesis
  proof (cases "getInstanceState ?r1")
    case (Inl err)
    then have "st' = st\<lparr>inst := ?r1, instanceMigrations := ?pushed\<rparr>" "out = Some err"
      using c True by (simp_all add: commit_def Let_def)
    then show ?thesis using inv by (simp add: run_inv_def)
  next
    case (Inr rd)
    define merged where "merged = (case rd of None \<Rightarrow> ?pushed | Some s \<Rightarrow> array_from_set (migrations s @ ?pushed))"
    show ?thesis
    proof (cases "updateInstanceMigrations ?r1 merged")
      case (Inl err)
      then have "st' = st\<lparr>inst := ?r1, instanceMigrations := merged\<rparr>" "out = Some err"
        using c True Inr by (simp_all add: commit_def Let_def merged_def)
      then show ?thesis using inv by (simp add: run_inv_def)
    next
      case (Inr r2)
      let ?c = "\<lparr>unit_id = m, reread = map_option migrations rd, memory = ?pushed, written = merged\<rparr>"
      have ac: "after_commit e opts m
                  (st\<lparr>inst := r2, instanceMigrations := written ?c, commits := commits st @ [?c]\<rparr>) = (st', out)"
        using c True \<open>getInstanceState ?r1 = Inr rd\<close> Inr by (simp add: commit_def Let_def merged_def)
      have "commit_ok ?c"
        by (cases rd) (simp_all add: commit_ok_def merged_def)
      moreover have "set (written ?c) = (case reread ?c of None \<Rightarrow> {} | Some fresh \<Rightarrow> set fresh) \<union> set (memory ?c)"
        by (cases rd) (auto simp: merged_def)
      ultimately have "run_inv base catalog
           (st\<lparr>inst := r2, instanceMigrations := written ?c, commits := commits st @ [?c]\<rparr>)"
        using run_inv_commit_record [OF inv m, of ?c r2] by simp
      then have "run_inv base catalog st'"
        using after_commit_frame [OF ac] by (simp add: run_inv_def)
      then show ?thesis by (simp add: run_inv_def)
    qed
  qed
qed

lemma run_inv_run_unit:
  assumes inv: "run_inv base catalog st" and m: "m \<in> set catalog"
    and c: "run_unit e opts m st = (st', out)"
  shows "(out = None \<longrightarrow> run_inv base catalog st') \<and> trace_inv base catalog (commits st')"
proof -
  let ?st1 = "st\<lparr>attempted := attempted st @ [m]\<rparr>"
  have inv1: "run_inv base catalog ?st1"
    using inv by (simp add: run_inv_def)
  have t: "trace_inv base catalog (commits st)"
    using inv by (simp add: run_inv_def)
  consider (same) "st' = st" | (att) "st' = ?st1"
    | (c0) "commit e opts m st = (st', out)" | (c1) "commit e opts m ?st1 = (st', out)"
    using c
    by (auto simp: run_unit_def Let_def split: if_splits option.splits outcome.splits)
  then show ?thesis
  proof cases
    case same
    then show ?thesis using inv t by simp
  next
    case att
    then show ?thesis using inv1 t by (simp add: run_inv_def)
  next
    case c0
    then show ?thesis using run_inv_commit [OF inv m] by blast
  next
    case c1
    then show ?thesis using run_inv_commit [OF inv1 m] by blast
  qed
qed

lemma run_inv_run_units:
  assumes "run_inv base catalog st" "set ms \<subseteq> set catalog"
    "run_units e opts ms st = (st', out)"
  shows "(out = None \<longrightarrow> run_inv base catalog st') \<and> trace_inv base catalog (commits st')"
  using assms
proof (induction ms arbitrary: st)
  case Nil
  then show ?case by (simp add: run_inv_def)
next
  case (Cons m ms)
  obtain st1 o1 where u: "run_unit e opts m st = (st1, o1)"
    by (cases "run_unit e opts m st")
  have m: "m \<in> set catalog" using Cons.prems(2) by simp
  note step = run_inv_run_unit [OF Cons.prems(1) m u]
  show ?case
  proof (cases o1)
    case None
    then have "run_units e opts ms st1 = (st', out)"
      using Cons.prems(3) u by simp
    moreover have "run_inv base catalog st1" using step None by simp
    ultimately show ?thesis using Cons.IH [of st1] Cons.prems(2) by simp
  next
    case (Some err)
    then have "st' = st1" "out = Some err"
      using Cons.prems(3) u by simp_all
    then show ?thesis using step by simp
  qed
qed


lemma state_check_frame:
  assumes "state_check e clientId opts st = (st1, res)"
  shows "instanceMigrations st1 = instanceMigrations st" "migrationsRan st1 = migrationsRan st"
    "attempted st1 = attempted st" "commits st1 = commits st"
  using assms
  by (auto simp: state_check_def Let_def split: sum.splits option.splits if_splits prod.splits)

lemma migrateInstance_planned:
  assumes "init (lifeCycleModule e) \<noteq> Some Throws" "listing e = Some entries"
    "state_check e clientId opts (start_state r) = (st1, Inr s)"
  shows "migrateInstance e clientId opts r =
    (case (case beforeAll (lifeCycleModule e) of
             None \<Rightarrow> Returns ()
           | Some hook \<Rightarrow>
               hook (migrationsToApply
                       (collectMigrations (re_match e) (localeCompare e) entries (exclude opts))
                       (migrations s))
                 (willApply opts) (dryRun opts)) of
       Throws \<Rightarrow> (st1\<lparr>instanceMigrations := migrations s\<rparr>, Some (HookThrew ''beforeAll''))
     | Returns u \<Rightarrow>
         (case run_units e opts
                 (migrationsToApply
                    (collectMigrations (re_match e) (localeCompare e) entries (exclude opts))
                    (migrations s))
                 (st1\<lparr>instanceMigrations := migrations s\<rparr>) of
            (st3, Some err) \<Rightarrow> (st3, Some err)
          | (st3, None) \<Rightarrow>
              (if dryRun opts then (st3, None)
               else (case (case afterAll (lifeCycleModule e) of
                             None \<Rightarrow> Returns ()
                           | Some hook \<Rightarrow> hook (migrationsRan st3) (willApply opts)) of
                       Throws \<Rightarrow> (st3, Some (HookThrew ''afterAll''))
                     | Returns u \<Rightarrow> (st3, None)))))"
  using assms by (simp add: migrateInstance_def Let_def)

lemma migrateInstance_cases:
  assumes "migrateInstance e clientId opts r = (final, out)"
  shows "(out \<noteq> None \<and> commits final = [] \<and> attempted final = [] \<and> migrationsRan final = [])
       \<or> (\<exists>entries st1 s o3.
             listing e = Some entries
           \<and> state_check e clientId opts (start_state r) = (st1, Inr s)
           \<and> run_units e opts
                 (migrationsToApply (collectMigrations (re_match e) (localeCompare e) entries (exclude opts))
                    (migrations s))
                 (st1\<lparr>instanceMigrations := migrations s\<rparr>) = (final, o3)
           \<and> (o3 \<noteq> None \<longrightarrow> out = o3)
           \<and> (out = None \<longrightarrow> o3 = None))"
proof (cases "init (lifeCycleModule e) = Some Throws")
  case True
  then have "final = start_state r" "out = Some (HookThrew ''init'')"
    using assms by (simp_all add: migrateInstance_def)
  then show ?thesis by (simp add: start_state_def)
next
  case ni: False
  show ?thesis
  proof (cases "listing e")
    case None
    then have "final = start_state r" "out = Some ReaddirFailed"
      using assms ni by (simp_all add: migrateInstance_def)
    then show ?thesis by (simp add: start_state_def)
  next
    case (Some entries)
    obtain st1 res where sc: "state_check e clientId opts (start_state r) = (st1, res)"
      by (cases "state_check e clientId opts (start_state r)")
    note fr = state_check_frame [OF sc]
    show ?thesis
    proof (cases res)
      case (Inl err)
      then have "final = st1" "out = Some err"
        using assms ni Some sc by (simp_all add: migrateInstance_def Let_def)
      then show ?thesis using fr by (simp add: start_state_def)
    next
      case (Inr s)
      let ?pending = "migrationsToApply (collectMigrations (re_match e) (localeCompare e) entries (exclude opts)) (migrations s)"
      let ?st2 = "st1\<lparr>instanceMigrations := migrations s\<rparr>"
      let ?hook = "case beforeAll (lifeCycleModule e) of None \<Rightarrow> Returns ()
                      | Some hook \<Rightarrow> hook ?pending (willApply opts) (dryRun opts)"
      note pl = migrateInstance_planned [OF ni Some sc [unfolded Inr]]
      obtain st3 o3 where ru: "run_units e opts ?pending ?st2 = (st3, o3)"
        by (cases "run_units e opts ?pending ?st2")
      show ?thesis
      proof (cases ?hook)
        case Throws
        then have "final = ?st2" "out = Some (HookThrew ''beforeAll'')"
          using assms pl by simp_all
        then show ?thesis using fr by (simp add: start_state_def)
      next
        case (Returns u)
        have fin: "final = st3 \<and> (o3 \<noteq> None \<longrightarrow> out = o3) \<and> (out = None \<longrightarrow> o3 = None)"
        proof (cases o3)
          case None
          then show ?thesis
            using assms pl Returns ru by (auto split: if_splits outcome.splits)
        next
          case (Some err)
          then show ?thesis
            using assms pl Returns ru by simp
        qed
        show ?thesis
          using \<open>listing e = Some entries\<close> sc Inr ru fin by blast
      qed
    qed
  qed
qed

lemma commit_applied:
  assumes "willApply opts" "getInstanceState (interfere e m (inst st)) = Inr fresh"
    "patch_status (interfere e m (inst st)) = Ok"
  shows "commit e opts m st =
     after_commit e opts m
       (st\<lparr>inst := (interfere e m (inst st))
               \<lparr>c_b2cToolkitMigrations := Some (join_comma
                  (case fresh of None \<Rightarrow> instanceMigrations st @ [m]
                   | Some s \<Rightarrow> array_from_set (migrations s @ instanceMigrations st @ [m])))\<rparr>,
           instanceMigrations := (case fresh of None \<Rightarrow> instanceMigrations st @ [m]
                   | Some s \<Rightarrow> array_from_set (migrations s @ instanceMigrations st @ [m])),
           commits := commits st @
             [\<lparr>unit_id = m, reread = map_option migrations fresh,
               memory = instanceMigrations st @ [m],
               written = (case fresh of None \<Rightarrow> instanceMigrations st @ [m]
                   | Some s \<Rightarrow> array_from_set (migrations s @ instanceMigrations st @ [m]))\<rparr>]\<rparr>)"
  using assms by (simp add: commit_def Let_def updateInstanceMigrations_def)

lemma run_trace:
  assumes "migrateInstance e clientId opts r = (final, out)"
  shows "commits final = []
       \<or> (\<exists>entries st1 s.
             listing e = Some entries
           \<and> state_check e clientId opts (start_state r) = (st1, Inr s)
           \<and> trace_inv (migrations s)
                (collectMigrations (re_match e) (localeCompare e) entries (exclude opts))
                (commits final))"
  using migrateInstance_cases [OF assms]
proof
  assume "out \<noteq> None \<and> commits final = [] \<and> attempted final = [] \<and> migrationsRan final = []"
  then show ?thesis by simp
next
  assume "\<exists>entries st1 s o3.
             listing e = Some entries
           \<and> state_check e clientId opts (start_state r) = (st1, Inr s)
           \<and> run_units e opts
                 (migrationsToApply (collectMigrations (re_match e) (localeCompare e) entries (exclude opts))
                    (migrations s))
                 (st1\<lparr>instanceMigrations := migrations s\<rparr>) = (final, o3)
           \<and> (o3 \<noteq> None \<longrightarrow> out = o3)
           \<and> (out = None \<longrightarrow> o3 = None)"
  then obtain entries st1 s o3 where l: "listing e = Some entries"
    and sc: "state_check e clientId opts (start_state r) = (st1, Inr s)"
    and ru: "run_units e opts
                 (migrationsToApply (collectMigrations (re_match e) (localeCompare e) entries (exclude opts))
                    (migrations s))
                 (st1\<lparr>instanceMigrations := migrations s\<rparr>) = (final, o3)"
    by blast
  let ?catalog = "collectMigrations (re_match e) (localeCompare e) entries (exclude opts)"
  have "commits st1 = []"
    using state_check_frame(4) [OF sc] by (simp add: start_state_def)
  then have inv: "run_inv (migrations s) ?catalog (st1\<lparr>instanceMigrations := migrations s\<rparr>)"
    by (simp add: run_inv_def trace_inv_def)
  have sub: "set (migrationsToApply ?catalog (migrations s)) \<subseteq> set ?catalog"
    by (auto simp: migrationsToApply_def)
  have "trace_inv (migrations s) ?catalog (commits final)"
    using run_inv_run_units [OF inv sub ru] by simp
  with l sc show ?thesis by blast
qed

lemma commit_ok_facts:
  assumes "commit_ok c"
  shows "case reread c of
           None \<Rightarrow> written c = memory c
         | Some ids \<Rightarrow> written c = array_from_set (ids @ memory c) \<and> distinct (written c)
                        \<and> set (written c) = set ids \<union> set (memory c)"
  using assms by (auto simp: commit_ok_def split: option.splits)

subsection \<open>The merge at every commit\<close>

text \<open>
  C1. A commit with \<open>apply\<close> enabled whose read and write succeed stores the comma-joined
  list \<open>w\<close>, where \<open>w\<close> is the de-duplicated concatenation of the list just read from the
  instance and the in-memory list with the migration pushed (the in-memory list alone
  when the read returned \<open>null\<close>): as a set, the union of the two. And in every run of
  \<open>migrateInstance\<close>, whatever its outcome, every commit wrote exactly that list.
\<close>

theorem commit_writes_union:
  "(willApply opts \<and> getInstanceState (interfere e m (inst st)) = Inr fresh
      \<and> patch_status (interfere e m (inst st)) = Ok \<longrightarrow>
      (let pushed = instanceMigrations st @ [m];
           w = (case fresh of None \<Rightarrow> pushed | Some s \<Rightarrow> array_from_set (migrations s @ pushed));
           st' = fst (commit e opts m st)
       in c_b2cToolkitMigrations (inst st') = Some (join_comma w)
        \<and> instanceMigrations st' = w
        \<and> commits st' = commits st @
             [\<lparr>unit_id = m, reread = map_option migrations fresh, memory = pushed, written = w\<rparr>]
        \<and> set w = (case fresh of None \<Rightarrow> {} | Some s \<Rightarrow> set (migrations s))
                    \<union> set (instanceMigrations st) \<union> {m}
        \<and> (fresh \<noteq> None \<longrightarrow> distinct w)))
   \<and> (migrateInstance e clientId opts r = (final, out) \<longrightarrow>
        (\<forall>c \<in> set (commits final).
           case reread c of
             None \<Rightarrow> written c = memory c
           | Some ids \<Rightarrow> written c = array_from_set (ids @ memory c) \<and> distinct (written c)
                          \<and> set (written c) = set ids \<union> set (memory c)))"
proof (intro conjI impI)
  assume h: "willApply opts \<and> getInstanceState (interfere e m (inst st)) = Inr fresh
      \<and> patch_status (interfere e m (inst st)) = Ok"
  obtain st' o' where ac: "commit e opts m st = (st', o')"
    by (cases "commit e opts m st")
  note fr = after_commit_frame [OF ac [unfolded commit_applied [of opts e m st fresh, OF h [THEN conjunct1] h [THEN conjunct2, THEN conjunct1] h [THEN conjunct2, THEN conjunct2]]]]
  show "let pushed = instanceMigrations st @ [m];
           w = (case fresh of None \<Rightarrow> pushed | Some s \<Rightarrow> array_from_set (migrations s @ pushed));
           st' = fst (commit e opts m st)
       in c_b2cToolkitMigrations (inst st') = Some (join_comma w)
        \<and> instanceMigrations st' = w
        \<and> commits st' = commits st @
             [\<lparr>unit_id = m, reread = map_option migrations fresh, memory = pushed, written = w\<rparr>]
        \<and> set w = (case fresh of None \<Rightarrow> {} | Some s \<Rightarrow> set (migrations s))
                    \<union> set (instanceMigrations st) \<union> {m}
        \<and> (fresh \<noteq> None \<longrightarrow> distinct w)"
    using fr(1,2,3) ac by (cases fresh) (auto simp: Let_def)
next
  assume run: "migrateInstance e clientId opts r = (final, out)"
  show "\<forall>c \<in> set (commits final).
           case reread c of
             None \<Rightarrow> written c = memory c
           | Some ids \<Rightarrow> written c = array_from_set (ids @ memory c) \<and> distinct (written c)
                          \<and> set (written c) = set ids \<union> set (memory c)"
    using run_trace [OF run] commit_ok_facts by (auto simp: trace_inv_def)
qed

theorem commit_writes_union_witness:
  "commits (fst (migrateInstance concurrent_env ''client'' default_options (bootstrapped_remote ''A,B'')))
     = [\<lparr>unit_id = ''D'', reread = Some [''A'', ''B'', ''C''], memory = [''A'', ''B'', ''D''],
         written = [''A'', ''B'', ''C'', ''D'']\<rparr>]
   \<and> c_b2cToolkitMigrations
       (inst (fst (migrateInstance concurrent_env ''client'' default_options (bootstrapped_remote ''A,B''))))
     = Some ''A,B,C,D''
   \<and> set [''A'', ''B'', ''C'', ''D''] = set [''A'', ''B'', ''C''] \<union> set [''A'', ''B'', ''D'']
   \<and> distinct [''A'', ''B'', ''C'', ''D'']
   \<and> c_b2cToolkitMigrations
       (inst (fst (commit concurrent_env default_options ''D''
                     ((start_state (bootstrapped_remote ''A,B''))\<lparr>instanceMigrations := [''A'', ''B'']\<rparr>))))
     = Some (join_comma [''A'', ''B'', ''C'', ''D''])"
proof -
  let ?run = "migrateInstance concurrent_env ''client'' default_options (bootstrapped_remote ''A,B'')"
  let ?st = "(start_state (bootstrapped_remote ''A,B''))\<lparr>instanceMigrations := [''A'', ''B'']\<rparr>"
  let ?fresh = "Some \<lparr>version = Some 7, migrations = [''A'', ''B'', ''C''],
                       clients = [''client'' \<mapsto> Some 7], toolkitVars = Map.empty\<rparr>"
  have cs: "commits (fst ?run)
     = [\<lparr>unit_id = ''D'', reread = Some [''A'', ''B'', ''C''], memory = [''A'', ''B'', ''D''],
         written = [''A'', ''B'', ''C'', ''D'']\<rparr>]"
    by code_simp
  have raw: "c_b2cToolkitMigrations (inst (fst ?run)) = Some ''A,B,C,D''"
    by code_simp
  have h: "willApply default_options
         \<and> getInstanceState (interfere concurrent_env ''D'' (inst ?st)) = Inr ?fresh
         \<and> patch_status (interfere concurrent_env ''D'' (inst ?st)) = Ok"
    by (simp add: default_options_def concurrent_env_def start_state_def bootstrapped_remote_def
          getInstanceState_def)
  have w: "array_from_set ([''A'', ''B'', ''C''] @ [''A'', ''B''] @ [''D'']) = [''A'', ''B'', ''C'', ''D'']"
    by code_simp
  have im: "instanceMigrations ?st = [''A'', ''B'']"
    by simp
  note t = commit_writes_union [where e = concurrent_env and opts = default_options and m = "''D''"
              and st = ?st and fresh = ?fresh and clientId = "''client''"
              and r = "bootstrapped_remote ''A,B''" and final = "fst ?run" and out = "snd ?run"]
  have step: "c_b2cToolkitMigrations (inst (fst (commit concurrent_env default_options ''D'' ?st)))
     = Some (join_comma [''A'', ''B'', ''C'', ''D''])"
    using t h w by (simp add: Let_def)
  have "\<forall>c \<in> set (commits (fst ?run)).
           case reread c of
             None \<Rightarrow> written c = memory c
           | Some ids \<Rightarrow> written c = array_from_set (ids @ memory c) \<and> distinct (written c)
                          \<and> set (written c) = set ids \<union> set (memory c)"
    using t by simp
  then have "distinct [''A'', ''B'', ''C'', ''D'']
           \<and> set [''A'', ''B'', ''C'', ''D''] = set [''A'', ''B'', ''C''] \<union> set [''A'', ''B'', ''D'']"
    unfolding cs by auto
  with cs raw step show ?thesis by blast
qed

subsection \<open>The stored string and the list\<close>

text \<open>
  The instance keeps the list comma-joined. A list of non-empty identifiers without
  commas is read back as it was written; an identifier with a comma in it would come
  back as several.
\<close>

lemma split_comma_plain: "CHR '','' \<notin> set x \<Longrightarrow> split_comma x = [x]"
  by (induction x) auto

lemma split_comma_append:
  "CHR '','' \<notin> set x \<Longrightarrow> split_comma (x @ CHR '','' # rest) = x # split_comma rest"
  by (induction x) auto

lemma split_comma_join_comma:
  "xs \<noteq> [] \<Longrightarrow> \<forall>x \<in> set xs. CHR '','' \<notin> set x \<Longrightarrow> split_comma (join_comma xs) = xs"
proof (induction xs rule: join_comma.induct)
  case 1
  then show ?case by simp
next
  case (2 x)
  then show ?case by (simp add: split_comma_plain)
next
  case (3 x y ys)
  then show ?case by (simp add: split_comma_append)
qed

lemma join_comma_empty:
  "\<forall>x \<in> set xs. x \<noteq> [] \<Longrightarrow> join_comma xs = [] \<longleftrightarrow> xs = []"
  by (induction xs rule: join_comma.induct) auto

lemma written_list_reads_back:
  assumes "\<forall>x \<in> set xs. x \<noteq> [] \<and> CHR '','' \<notin> set x" "get_status r = Ok"
    "updateInstanceMigrations r xs = Inr r'"
  shows "\<exists>s. getInstanceState r' = Inr (Some s) \<and> migrations s = xs"
proof -
  have r': "r' = r\<lparr>c_b2cToolkitMigrations := Some (join_comma xs)\<rparr>"
    using assms(3) by (auto simp: updateInstanceMigrations_def split: http.splits)
  have "(if join_comma xs = [] then [] else split_comma (join_comma xs)) = xs"
    using assms(1) join_comma_empty [of xs] split_comma_join_comma [of xs] by auto
  then show ?thesis
    using assms(2) by (simp add: r' getInstanceState_def)
qed

subsection \<open>The applied list on the instance only grows\<close>

lemma split_comma_no_comma: "x \<in> set (split_comma raw) \<Longrightarrow> CHR '','' \<notin> set x"
proof (induction raw arbitrary: x)
  case Nil
  then show ?case by simp
next
  case (Cons c cs)
  show ?case
  proof (cases "c = CHR '',''")
    case True
    then show ?thesis using Cons by auto
  next
    case False
    show ?thesis
    proof (cases "split_comma cs")
      case Nil
      then show ?thesis using Cons.prems False by simp
    next
      case (Cons p ps)
      then have "x = c # p \<or> x \<in> set ps"
        using Cons.prems False by simp
      moreover have "CHR '','' \<notin> set p" "\<And>y. y \<in> set ps \<Longrightarrow> CHR '','' \<notin> set y"
        using Cons.IH Cons by simp_all
      ultimately show ?thesis using False by auto
    qed
  qed
qed

lemma getInstanceState_no_comma:
  assumes "getInstanceState r = Inr (Some s)" "x \<in> set (migrations s)"
  shows "CHR '','' \<notin> set x"
proof -
  have "migrations s = (case c_b2cToolkitMigrations r of
                          None \<Rightarrow> []
                        | Some raw \<Rightarrow> if raw = [] then [] else split_comma raw)"
    using assms(1) by (auto simp: getInstanceState_def split: http.splits)
  then show ?thesis
    using assms(2) split_comma_no_comma [of x] by (auto split: option.splits if_splits)
qed

lemma state_check_source:
  assumes "state_check e clientId opts st = (st1, Inr s)"
  shows "\<exists>r'. getInstanceState r' = Inr (Some s)"
  using assms
  by (auto simp: state_check_def Let_def split: sum.splits option.splits if_splits prod.splits)

lemma join_comma_nonempty: "x \<in> set xs \<Longrightarrow> x \<noteq> [] \<Longrightarrow> join_comma xs \<noteq> []"
  by (induction xs rule: join_comma.induct) auto

lemma persisted_written:
  assumes "m \<in> set (written c)" "m \<noteq> []" "\<forall>x \<in> set (written c). CHR '','' \<notin> set x"
  shows "persisted c = written c"
proof -
  have "written c \<noteq> []" using assms(1) by auto
  then have "split_comma (join_comma (written c)) = written c"
    using assms(3) by (rule split_comma_join_comma)
  then show ?thesis
    using join_comma_nonempty [OF assms(1,2)] by (simp add: persisted_def Let_def)
qed

lemma writes_from_known:
  "writes_from known cs \<Longrightarrow> c \<in> set cs \<Longrightarrow> set (written c) \<subseteq> known \<union> reread_ids cs"
proof (induction cs arbitrary: known)
  case Nil
  then show ?case by simp
next
  case (Cons d cs)
  let ?known = "known \<union> (case reread d of None \<Rightarrow> {} | Some fresh \<Rightarrow> set fresh)"
  have r: "reread_ids (d # cs) = (case reread d of None \<Rightarrow> {} | Some fresh \<Rightarrow> set fresh) \<union> reread_ids cs"
    by (simp add: reread_ids_def)
  show ?case
  proof (cases "c = d")
    case True
    then show ?thesis using Cons.prems(1) r by (auto simp: Let_def)
  next
    case False
    then have "c \<in> set cs" using Cons.prems(2) by simp
    moreover have "writes_from ?known cs" using Cons.prems(1) by (simp add: Let_def)
    ultimately have "set (written c) \<subseteq> ?known \<union> reread_ids cs" by (rule Cons.IH [rotated])
    then show ?thesis using r by auto
  qed
qed

lemma plain_ids_commit:
  assumes inv: "plain_ids catalog st" and m: "m \<in> set catalog" "CHR '','' \<notin> set m"
    and c: "commit e opts m st = (st', out)"
  shows "plain_ids catalog st'"
proof (cases "willApply opts")
  case False
  then have ac: "after_commit e opts m (st\<lparr>instanceMigrations := instanceMigrations st @ [m]\<rparr>) = (st', out)"
    using c by (simp add: commit_def)
  show ?thesis
    using after_commit_frame(2,3) [OF ac] inv m by (simp add: plain_ids_def)
next
  case True
  let ?r1 = "interfere e m (inst st)"
  let ?pushed = "instanceMigrations st @ [m]"
  have pushed: "\<forall>x \<in> set ?pushed. CHR '','' \<notin> set x"
    using inv m by (simp add: plain_ids_def)
  show ?thesis
  proof (cases "getInstanceState ?r1")
    case (Inl err)
    then have "st' = st\<lparr>inst := ?r1, instanceMigrations := ?pushed\<rparr>"
      using c True by (simp add: commit_def Let_def)
    then show ?thesis using inv pushed by (simp add: plain_ids_def)
  next
    case (Inr rd)
    define merged where "merged = (case rd of None \<Rightarrow> ?pushed | Some s \<Rightarrow> array_from_set (migrations s @ ?pushed))"
    have merged: "\<forall>x \<in> set merged. CHR '','' \<notin> set x"
    proof (cases rd)
      case None
      then show ?thesis using pushed by (simp add: merged_def)
    next
      case (Some s)
      then have "\<forall>x \<in> set (migrations s). CHR '','' \<notin> set x"
        using getInstanceState_no_comma [of ?r1 s] Inr by simp
      then show ?thesis using pushed Some by (auto simp: merged_def)
    qed
    have mm: "m \<in> set merged"
      by (cases rd) (simp_all add: merged_def)
    show ?thesis
    proof (cases "updateInstanceMigrations ?r1 merged")
      case (Inl err)
      then have "st' = st\<lparr>inst := ?r1, instanceMigrations := merged\<rparr>"
        using c True Inr by (simp add: commit_def Let_def merged_def)
      then show ?thesis using inv merged by (simp add: plain_ids_def)
    next
      case (Inr r2)
      let ?c = "\<lparr>unit_id = m, reread = map_option migrations rd, memory = ?pushed, written = merged\<rparr>"
      have ac: "after_commit e opts m
                  (st\<lparr>inst := r2, instanceMigrations := merged, commits := commits st @ [?c]\<rparr>) = (st', out)"
        using c True \<open>getInstanceState ?r1 = Inr rd\<close> Inr by (simp add: commit_def Let_def merged_def)
      show ?thesis
        using after_commit_frame(2,3) [OF ac] inv merged mm m by (simp add: plain_ids_def)
    qed
  qed
qed

lemma holds_last_commit:
  assumes c: "commit e opts m st = (st', out)"
  shows "(commits st' = commits st \<and> (out = None \<longrightarrow> inst st' = inst st))
       \<or> (commits st' \<noteq> commits st \<and> commits st' \<noteq> [] \<and> holds_last st')"
proof (cases "willApply opts")
  case False
  then have ac: "after_commit e opts m (st\<lparr>instanceMigrations := instanceMigrations st @ [m]\<rparr>) = (st', out)"
    using c by (simp add: commit_def)
  show ?thesis
    using after_commit_frame(1,3) [OF ac] by simp
next
  case True
  let ?r1 = "interfere e m (inst st)"
  let ?pushed = "instanceMigrations st @ [m]"
  show ?thesis
  proof (cases "getInstanceState ?r1")
    case (Inl err)
    then have "st' = st\<lparr>inst := ?r1, instanceMigrations := ?pushed\<rparr>" "out = Some err"
      using c True by (simp_all add: commit_def Let_def)
    then show ?thesis by simp
  next
    case (Inr rd)
    define merged where "merged = (case rd of None \<Rightarrow> ?pushed | Some s \<Rightarrow> array_from_set (migrations s @ ?pushed))"
    show ?thesis
    proof (cases "updateInstanceMigrations ?r1 merged")
      case (Inl err)
      then have "st' = st\<lparr>inst := ?r1, instanceMigrations := merged\<rparr>" "out = Some err"
        using c True Inr by (simp_all add: commit_def Let_def merged_def)
      then show ?thesis by simp
    next
      case (Inr r2)
      let ?c = "\<lparr>unit_id = m, reread = map_option migrations rd, memory = ?pushed, written = merged\<rparr>"
      have ac: "after_commit e opts m
                  (st\<lparr>inst := r2, instanceMigrations := merged, commits := commits st @ [?c]\<rparr>) = (st', out)"
        using c True \<open>getInstanceState ?r1 = Inr rd\<close> Inr by (simp add: commit_def Let_def merged_def)
      have "c_b2cToolkitMigrations r2 = Some (join_comma merged)"
        using Inr by (auto simp: updateInstanceMigrations_def split: http.splits)
      then show ?thesis
        using after_commit_frame(1,3) [OF ac] by (simp add: holds_last_def)
    qed
  qed
qed

lemma run_unit_steps:
  assumes "run_unit e opts m st = (st', out)"
  shows "(commits st' = commits st \<and> inst st' = inst st \<and> instanceMigrations st' = instanceMigrations st)
       \<or> (\<exists>st0. commit e opts m st0 = (st', out) \<and> commits st0 = commits st \<and> inst st0 = inst st
                \<and> instanceMigrations st0 = instanceMigrations st)"
proof -
  let ?st1 = "st\<lparr>attempted := attempted st @ [m]\<rparr>"
  consider (same) "st' = st" | (att) "st' = ?st1"
    | (c0) "commit e opts m st = (st', out)" | (c1) "commit e opts m ?st1 = (st', out)"
    using assms
    by (auto simp: run_unit_def Let_def split: if_splits option.splits outcome.splits)
  then show ?thesis
  proof cases
    case same
    then show ?thesis by simp
  next
    case att
    then show ?thesis by simp
  next
    case c0
    then show ?thesis by blast
  next
    case c1
    have "commits ?st1 = commits st \<and> inst ?st1 = inst st
            \<and> instanceMigrations ?st1 = instanceMigrations st"
      by simp
    with c1 show ?thesis by blast
  qed
qed

lemma plain_ids_run_unit:
  assumes inv: "plain_ids catalog st" and m: "m \<in> set catalog" "CHR '','' \<notin> set m"
    and c: "run_unit e opts m st = (st', out)"
  shows "plain_ids catalog st'"
  using run_unit_steps [OF c]
proof
  assume "commits st' = commits st \<and> inst st' = inst st \<and> instanceMigrations st' = instanceMigrations st"
  then show ?thesis using inv by (simp add: plain_ids_def)
next
  assume "\<exists>st0. commit e opts m st0 = (st', out) \<and> commits st0 = commits st \<and> inst st0 = inst st
                \<and> instanceMigrations st0 = instanceMigrations st"
  then obtain st0 where c0: "commit e opts m st0 = (st', out)" and "commits st0 = commits st"
    "instanceMigrations st0 = instanceMigrations st"
    by blast
  then have "plain_ids catalog st0" using inv by (simp add: plain_ids_def)
  then show ?thesis using m c0 by (rule plain_ids_commit)
qed

lemma holds_last_run_unit:
  assumes inv: "holds_last st" and c: "run_unit e opts m st = (st', None)"
  shows "holds_last st'"
  using run_unit_steps [OF c]
proof
  assume "commits st' = commits st \<and> inst st' = inst st \<and> instanceMigrations st' = instanceMigrations st"
  then show ?thesis using inv by (simp add: holds_last_def)
next
  assume "\<exists>st0. commit e opts m st0 = (st', None) \<and> commits st0 = commits st \<and> inst st0 = inst st
                \<and> instanceMigrations st0 = instanceMigrations st"
  then obtain st0 where c0: "commit e opts m st0 = (st', None)" and eq: "commits st0 = commits st"
    "inst st0 = inst st"
    by blast
  show ?thesis
    using holds_last_commit [OF c0] inv eq by (auto simp: holds_last_def)
qed

lemma plain_ids_run_units:
  assumes "plain_ids catalog st" "set ms \<subseteq> set catalog" "\<forall>m \<in> set ms. CHR '','' \<notin> set m"
    "run_units e opts ms st = (st', out)"
  shows "plain_ids catalog st' \<and> (out = None \<and> holds_last st \<longrightarrow> holds_last st')"
  using assms
proof (induction ms arbitrary: st)
  case Nil
  then show ?case by simp
next
  case (Cons m ms)
  obtain st1 o1 where u: "run_unit e opts m st = (st1, o1)"
    by (cases "run_unit e opts m st")
  have m: "m \<in> set catalog" "CHR '','' \<notin> set m" using Cons.prems(2,3) by simp_all
  note step = plain_ids_run_unit [OF Cons.prems(1) m u]
  show ?case
  proof (cases o1)
    case None
    then have ru: "run_units e opts ms st1 = (st', out)"
      using Cons.prems(4) u by simp
    have ih: "plain_ids catalog st' \<and> (out = None \<and> holds_last st1 \<longrightarrow> holds_last st')"
      using Cons.IH [OF step _ _ ru] Cons.prems(2,3) by simp
    have "holds_last st \<longrightarrow> holds_last st1"
      using holds_last_run_unit [of st e opts m st1] u None by simp
    with ih show ?thesis by blast
  next
    case (Some err)
    then have "st' = st1" "out = Some err"
      using Cons.prems(4) u by simp_all
    then show ?thesis using step by simp
  qed
qed

lemma run_ids:
  assumes run: "migrateInstance e clientId opts r = (final, out)"
    and l: "listing e = Some entries"
    and ids: "\<forall>m \<in> set (collectMigrations (re_match e) (localeCompare e) entries (exclude opts)).
                CHR '','' \<notin> set m"
  shows "(\<forall>c \<in> set (commits final).
            unit_id c \<in> set (collectMigrations (re_match e) (localeCompare e) entries (exclude opts))
          \<and> unit_id c \<in> set (written c)
          \<and> (\<forall>x \<in> set (written c). CHR '','' \<notin> set x))
       \<and> (out = None \<longrightarrow> holds_last final)"
  using migrateInstance_cases [OF run]
proof
  assume "out \<noteq> None \<and> commits final = [] \<and> attempted final = [] \<and> migrationsRan final = []"
  then show ?thesis by (simp add: holds_last_def)
next
  assume "\<exists>entries st1 s o3.
             listing e = Some entries
           \<and> state_check e clientId opts (start_state r) = (st1, Inr s)
           \<and> run_units e opts
                 (migrationsToApply (collectMigrations (re_match e) (localeCompare e) entries (exclude opts))
                    (migrations s))
                 (st1\<lparr>instanceMigrations := migrations s\<rparr>) = (final, o3)
           \<and> (o3 \<noteq> None \<longrightarrow> out = o3)
           \<and> (out = None \<longrightarrow> o3 = None)"
  then obtain st1 s o3 where sc: "state_check e clientId opts (start_state r) = (st1, Inr s)"
    and ru: "run_units e opts
                 (migrationsToApply (collectMigrations (re_match e) (localeCompare e) entries (exclude opts))
                    (migrations s))
                 (st1\<lparr>instanceMigrations := migrations s\<rparr>) = (final, o3)"
    and oo: "out = None \<longrightarrow> o3 = None"
    using l by auto
  let ?catalog = "collectMigrations (re_match e) (localeCompare e) entries (exclude opts)"
  let ?st2 = "st1\<lparr>instanceMigrations := migrations s\<rparr>"
  have c0: "commits st1 = []"
    using state_check_frame(4) [OF sc] by (simp add: start_state_def)
  obtain r' where "getInstanceState r' = Inr (Some s)"
    using state_check_source [OF sc] by blast
  then have "\<forall>x \<in> set (migrations s). CHR '','' \<notin> set x"
    using getInstanceState_no_comma by blast
  then have inv: "plain_ids ?catalog ?st2"
    using c0 by (simp add: plain_ids_def)
  have h0: "holds_last ?st2"
    using c0 by (simp add: holds_last_def)
  have sub: "set (migrationsToApply ?catalog (migrations s)) \<subseteq> set ?catalog"
    by (auto simp: migrationsToApply_def)
  have nc: "\<forall>m \<in> set (migrationsToApply ?catalog (migrations s)). CHR '','' \<notin> set m"
    using ids sub by blast
  have "plain_ids ?catalog final \<and> (o3 = None \<and> holds_last ?st2 \<longrightarrow> holds_last final)"
    using inv sub nc ru by (rule plain_ids_run_units)
  then show ?thesis
    using h0 oo by (simp add: plain_ids_def)
qed

lemma getInstanceState_persisted:
  assumes "c_b2cToolkitMigrations r = Some (join_comma (written c))"
    "getInstanceState r = Inr (Some s)"
  shows "migrations s = persisted c"
  using assms by (auto simp: getInstanceState_def persisted_def Let_def split: http.splits)

text \<open>
  C7. Take a run of \<open>migrateInstance\<close>, whatever its outcome, in a project whose
  migrations have non-empty names without a comma. Every write of the engine leaves on
  the instance the comma-joined list of that commit, and \<open>getInstanceState\<close> reads it
  back as the list written. That list contains the list read before planning and the
  list just read back from the instance, so it has at least as many identifiers as the
  last read state; each contains the one stored before it; every commit is that of a
  migration of the catalog; and every identifier stored is one the instance returned
  (before planning or in a read up to that commit) or a migration of the catalog. After
  a run that succeeds the instance holds the list of the last commit.
\<close>

theorem appliedUnits_persisted_growth:
  assumes run: "migrateInstance e clientId opts r = (final, out)"
    and l: "listing e = Some entries"
    and ids: "\<forall>m \<in> set (collectMigrations (re_match e) (localeCompare e) entries (exclude opts)).
                m \<noteq> [] \<and> CHR '','' \<notin> set m"
  shows "(\<forall>st m st' res. commit e opts m st = (st', res) \<and> commits st' \<noteq> commits st \<longrightarrow>
            c_b2cToolkitMigrations (inst st') = Some (join_comma (written (last (commits st')))))
       \<and> (commits final = []
          \<or> (\<exists>st1 s.
               state_check e clientId opts (start_state r) = (st1, Inr s)
             \<and> (\<forall>c \<in> set (commits final).
                   unit_id c \<in> set (collectMigrations (re_match e) (localeCompare e) entries (exclude opts))
                 \<and> persisted c = written c
                 \<and> set (migrations s) \<subseteq> set (persisted c)
                 \<and> (\<forall>ids. reread c = Some ids \<longrightarrow>
                        set ids \<subseteq> set (persisted c) \<and> card (set ids) \<le> card (set (persisted c)))
                 \<and> set (persisted c)
                     \<subseteq> set (migrations s) \<union> reread_ids (commits final)
                       \<union> set (collectMigrations (re_match e) (localeCompare e) entries (exclude opts)))
             \<and> sorted_wrt (\<lambda>a b. set (persisted a) \<subseteq> set (persisted b)
                                  \<and> card (set (persisted a)) \<le> card (set (persisted b))) (commits final)
             \<and> writes_from
                  (set (migrations s)
                     \<union> set (collectMigrations (re_match e) (localeCompare e) entries (exclude opts)))
                  (commits final)
             \<and> (out = None \<longrightarrow>
                   c_b2cToolkitMigrations (inst final) = Some (join_comma (written (last (commits final))))
                 \<and> (\<forall>s'. getInstanceState (inst final) = Inr (Some s') \<longrightarrow>
                        migrations s' = persisted (last (commits final))))))"
proof
  show "\<forall>st m st' res. commit e opts m st = (st', res) \<and> commits st' \<noteq> commits st \<longrightarrow>
            c_b2cToolkitMigrations (inst st') = Some (join_comma (written (last (commits st'))))"
  proof (intro allI impI)
    fix st m st' res
    assume h: "commit e opts m st = (st', res) \<and> commits st' \<noteq> commits st"
    then have "commits st' \<noteq> [] \<and> holds_last st'"
      using holds_last_commit [of e opts m st st' res] by blast
    then show "c_b2cToolkitMigrations (inst st') = Some (join_comma (written (last (commits st'))))"
      by (auto simp: holds_last_def)
  qed
next
  let ?catalog = "collectMigrations (re_match e) (localeCompare e) entries (exclude opts)"
  let ?grows = "\<lambda>a b. set (persisted a) \<subseteq> set (persisted b)
                      \<and> card (set (persisted a)) \<le> card (set (persisted b))"
  have nc: "\<forall>m \<in> set ?catalog. CHR '','' \<notin> set m"
    using ids by blast
  note ri = run_ids [OF run l nc]
  show "commits final = []
          \<or> (\<exists>st1 s.
               state_check e clientId opts (start_state r) = (st1, Inr s)
             \<and> (\<forall>c \<in> set (commits final).
                   unit_id c \<in> set ?catalog
                 \<and> persisted c = written c
                 \<and> set (migrations s) \<subseteq> set (persisted c)
                 \<and> (\<forall>ids. reread c = Some ids \<longrightarrow>
                        set ids \<subseteq> set (persisted c) \<and> card (set ids) \<le> card (set (persisted c)))
                 \<and> set (persisted c)
                     \<subseteq> set (migrations s) \<union> reread_ids (commits final) \<union> set ?catalog)
             \<and> sorted_wrt ?grows (commits final)
             \<and> writes_from (set (migrations s) \<union> set ?catalog) (commits final)
             \<and> (out = None \<longrightarrow>
                   c_b2cToolkitMigrations (inst final) = Some (join_comma (written (last (commits final))))
                 \<and> (\<forall>s'. getInstanceState (inst final) = Inr (Some s') \<longrightarrow>
                        migrations s' = persisted (last (commits final)))))"
  proof (cases "commits final = []")
    case True
    then show ?thesis by simp
  next
    case ne: False
    then obtain entries' st1 s where l': "listing e = Some entries'"
      and sc: "state_check e clientId opts (start_state r) = (st1, Inr s)"
      and t': "trace_inv (migrations s)
                (collectMigrations (re_match e) (localeCompare e) entries' (exclude opts))
                (commits final)"
      using run_trace [OF run] by blast
    have "entries' = entries" using l l' by simp
    then have t: "trace_inv (migrations s) ?catalog (commits final)"
      using t' by simp
    have wf: "writes_from (set (migrations s) \<union> set ?catalog) (commits final)"
      using t by (simp add: trace_inv_def)
    have same: "persisted c = written c" if "c \<in> set (commits final)" for c
    proof -
      have u: "unit_id c \<in> set ?catalog" "unit_id c \<in> set (written c)"
        "\<forall>x \<in> set (written c). CHR '','' \<notin> set x"
        using ri that by blast+
      then have "unit_id c \<noteq> []" using ids by blast
      with u(2) show ?thesis using u(3) by (rule persisted_written)
    qed
    have each: "\<forall>c \<in> set (commits final).
                   unit_id c \<in> set ?catalog
                 \<and> persisted c = written c
                 \<and> set (migrations s) \<subseteq> set (persisted c)
                 \<and> (\<forall>ids. reread c = Some ids \<longrightarrow>
                        set ids \<subseteq> set (persisted c) \<and> card (set ids) \<le> card (set (persisted c)))
                 \<and> set (persisted c)
                     \<subseteq> set (migrations s) \<union> reread_ids (commits final) \<union> set ?catalog"
    proof
      fix c
      assume c: "c \<in> set (commits final)"
      then have ok: "commit_ok c" and b: "set (migrations s) \<subseteq> set (written c)"
        using t by (auto simp: trace_inv_def)
      have u: "unit_id c \<in> set ?catalog"
        using ri c by blast
      have i: "\<forall>ids. reread c = Some ids \<longrightarrow>
                      set ids \<subseteq> set (written c) \<and> card (set ids) \<le> card (set (written c))"
      proof (intro allI impI)
        fix ids
        assume "reread c = Some ids"
        then have "set ids \<subseteq> set (written c)"
          using ok by (auto simp: commit_ok_def)
        then show "set ids \<subseteq> set (written c) \<and> card (set ids) \<le> card (set (written c))"
          by (simp add: card_mono)
      qed
      have k: "set (written c) \<subseteq> set (migrations s) \<union> reread_ids (commits final) \<union> set ?catalog"
        using writes_from_known [OF wf c] by blast
      show "unit_id c \<in> set ?catalog
                 \<and> persisted c = written c
                 \<and> set (migrations s) \<subseteq> set (persisted c)
                 \<and> (\<forall>ids. reread c = Some ids \<longrightarrow>
                        set ids \<subseteq> set (persisted c) \<and> card (set ids) \<le> card (set (persisted c)))
                 \<and> set (persisted c)
                     \<subseteq> set (migrations s) \<union> reread_ids (commits final) \<union> set ?catalog"
        unfolding same [OF c] using u b i k by blast
    qed
    have "sorted_wrt (\<lambda>a b. set (written a) \<subseteq> set (written b)) (commits final)"
      using t by (simp add: trace_inv_def)
    then have chain: "sorted_wrt ?grows (commits final)"
    proof (rule sorted_wrt_mono_rel [rotated])
      fix a b
      assume "a \<in> set (commits final)" "b \<in> set (commits final)"
        "set (written a) \<subseteq> set (written b)"
      then show "set (persisted a) \<subseteq> set (persisted b)
                      \<and> card (set (persisted a)) \<le> card (set (persisted b))"
        by (simp add: same card_mono)
    qed
    have fin: "out = None \<longrightarrow>
                   c_b2cToolkitMigrations (inst final) = Some (join_comma (written (last (commits final))))
                 \<and> (\<forall>s'. getInstanceState (inst final) = Inr (Some s') \<longrightarrow>
                        migrations s' = persisted (last (commits final)))"
    proof
      assume "out = None"
      then have "holds_last final" using ri by blast
      then have st: "c_b2cToolkitMigrations (inst final) = Some (join_comma (written (last (commits final))))"
        using ne by (simp add: holds_last_def)
      then show "c_b2cToolkitMigrations (inst final) = Some (join_comma (written (last (commits final))))
                 \<and> (\<forall>s'. getInstanceState (inst final) = Inr (Some s') \<longrightarrow>
                        migrations s' = persisted (last (commits final)))"
        using getInstanceState_persisted [OF st] by blast
    qed
    show ?thesis
      using sc each chain wf fin by blast
  qed
qed

theorem appliedUnits_persisted_growth_witness:
  "snd (migrateInstance concurrent_env ''client'' default_options (bootstrapped_remote ''A,B'')) = None
   \<and> commits (fst (migrateInstance concurrent_env ''client'' default_options (bootstrapped_remote ''A,B'')))
       = [\<lparr>unit_id = ''D'', reread = Some [''A'', ''B'', ''C''], memory = [''A'', ''B'', ''D''],
           written = [''A'', ''B'', ''C'', ''D'']\<rparr>]
   \<and> persisted \<lparr>unit_id = ''D'', reread = Some [''A'', ''B'', ''C''], memory = [''A'', ''B'', ''D''],
                written = [''A'', ''B'', ''C'', ''D'']\<rparr> = [''A'', ''B'', ''C'', ''D'']
   \<and> c_b2cToolkitMigrations
       (inst (fst (migrateInstance concurrent_env ''client'' default_options (bootstrapped_remote ''A,B''))))
       = Some ''A,B,C,D''
   \<and> map_option migrations
       (projr (getInstanceState
          (inst (fst (migrateInstance concurrent_env ''client'' default_options (bootstrapped_remote ''A,B''))))))
       = Some [''A'', ''B'', ''C'', ''D'']"
proof -
  let ?run = "migrateInstance concurrent_env ''client'' default_options (bootstrapped_remote ''A,B'')"
  let ?entries = "[\<lparr>name = ''D'', isDirectory = True\<rparr>, \<lparr>name = ''B'', isDirectory = True\<rparr>,
                   \<lparr>name = ''A'', isDirectory = True\<rparr>]"
  let ?c = "\<lparr>unit_id = ''D'', reread = Some [''A'', ''B'', ''C''], memory = [''A'', ''B'', ''D''],
             written = [''A'', ''B'', ''C'', ''D'']\<rparr>"
  have o: "snd ?run = None"
    by code_simp
  have cs: "commits (fst ?run) = [?c]"
    by code_simp
  have l: "listing concurrent_env = Some ?entries"
    by (simp add: concurrent_env_def)
  have cat: "collectMigrations (re_match concurrent_env) (localeCompare concurrent_env) ?entries
               (exclude default_options) = [''A'', ''B'', ''D'']"
    by code_simp
  have ids: "\<forall>m \<in> set (collectMigrations (re_match concurrent_env) (localeCompare concurrent_env)
                          ?entries (exclude default_options)). m \<noteq> [] \<and> CHR '','' \<notin> set m"
    unfolding cat by simp
  have ne: "commits (fst ?run) \<noteq> []"
    unfolding cs by simp
  have mem: "?c \<in> set (commits (fst ?run))"
    unfolding cs by simp
  have la: "last (commits (fst ?run)) = ?c"
    unfolding cs by simp
  have gs: "get_status (inst (fst ?run)) = Ok"
    by code_simp
  obtain s' where g: "getInstanceState (inst (fst ?run)) = Inr (Some s')"
    using gs by (simp add: getInstanceState_def)
  have pr: "?run = (fst ?run, snd ?run)"
    by simp
  note t = appliedUnits_persisted_growth [OF pr l ids]
  have each: "\<forall>c \<in> set (commits (fst ?run)). persisted c = written c"
    using t ne by blast
  have "snd ?run = None \<longrightarrow>
          c_b2cToolkitMigrations (inst (fst ?run)) = Some (join_comma (written (last (commits (fst ?run)))))
        \<and> (\<forall>s'. getInstanceState (inst (fst ?run)) = Inr (Some s') \<longrightarrow>
               migrations s' = persisted (last (commits (fst ?run))))"
    using t ne by blast
  then have fin: "c_b2cToolkitMigrations (inst (fst ?run)) = Some (join_comma (written (last (commits (fst ?run)))))"
    and rb: "migrations s' = persisted (last (commits (fst ?run)))"
    using o g by blast+
  have p: "persisted ?c = written ?c"
    using each mem by blast
  have p': "persisted ?c = [''A'', ''B'', ''C'', ''D'']"
    unfolding p by simp
  have j: "join_comma [''A'', ''B'', ''C'', ''D''] = ''A,B,C,D''"
    by code_simp
  have st: "c_b2cToolkitMigrations (inst (fst ?run)) = Some ''A,B,C,D''"
    using fin unfolding la j [symmetric] by simp
  have rd: "map_option migrations (projr (getInstanceState (inst (fst ?run))))
                 = Some [''A'', ''B'', ''C'', ''D'']"
    unfolding g using rb unfolding la p' by simp
  from o cs p' st rd show ?thesis
    by (intro conjI)
qed

text \<open>
  The claim as stated fails for a migration whose name has a comma in it: the instance
  keeps the list comma-joined, so after the commit of \<open>x,y\<close> it lists \<open>x\<close> and \<open>y\<close>, which
  are no migrations of the catalog and which no read had returned before, and it does
  not list \<open>x,y\<close>.
\<close>

theorem appliedUnits_comma_counterexample:
  "snd (migrateInstance comma_env ''client'' default_options (bootstrapped_remote '''')) = None
   \<and> collectMigrations (re_match comma_env) (localeCompare comma_env)
        [\<lparr>name = ''z'', isDirectory = True\<rparr>, \<lparr>name = ''x,y'', isDirectory = True\<rparr>]
        (exclude default_options) = [''x,y'', ''z'']
   \<and> map unit_id (commits (fst (migrateInstance comma_env ''client'' default_options (bootstrapped_remote ''''))))
       = [''x,y'', ''z'']
   \<and> map reread (commits (fst (migrateInstance comma_env ''client'' default_options (bootstrapped_remote ''''))))
       = [Some [], Some [''x'', ''y'']]
   \<and> map written (commits (fst (migrateInstance comma_env ''client'' default_options (bootstrapped_remote ''''))))
       = [[''x,y''], [''x'', ''y'', ''x,y'', ''z'']]
   \<and> map persisted (commits (fst (migrateInstance comma_env ''client'' default_options (bootstrapped_remote ''''))))
       = [[''x'', ''y''], [''x'', ''y'', ''x'', ''y'', ''z'']]
   \<and> c_b2cToolkitMigrations
       (inst (fst (migrateInstance comma_env ''client'' default_options (bootstrapped_remote ''''))))
       = Some ''x,y,x,y,z''
   \<and> map_option migrations
       (projr (getInstanceState
          (inst (fst (migrateInstance comma_env ''client'' default_options (bootstrapped_remote ''''))))))
       = Some [''x'', ''y'', ''x'', ''y'', ''z'']
   \<and> ''x'' \<notin> set [''x,y'', ''z'']
   \<and> ''x,y'' \<notin> set [''x'', ''y'', ''x'', ''y'', ''z'']"
  by code_simp

subsection \<open>What one pass of the loop does\<close>

lemma commit_frame:
  assumes "commit e opts m st = (st', out)"
  shows "attempted st' = attempted st"
    "migrationsRan st' = (if out = None then migrationsRan st @ [m] else migrationsRan st)"
    "m \<in> set (instanceMigrations st')"
    "\<not> willApply opts \<Longrightarrow> commits st' = commits st"
proof -
  consider (a) st0 where "after_commit e opts m st0 = (st', out)" "attempted st0 = attempted st"
      "migrationsRan st0 = migrationsRan st" "m \<in> set (instanceMigrations st0)"
      "\<not> willApply opts \<longrightarrow> commits st0 = commits st"
    | (b) "out \<noteq> None" "attempted st' = attempted st" "migrationsRan st' = migrationsRan st"
      "m \<in> set (instanceMigrations st')" "willApply opts"
    using assms
    by (fastforce simp: commit_def Let_def split: if_splits sum.splits option.splits)
  then have "attempted st' = attempted st
      \<and> migrationsRan st' = (if out = None then migrationsRan st @ [m] else migrationsRan st)
      \<and> m \<in> set (instanceMigrations st')
      \<and> (\<not> willApply opts \<longrightarrow> commits st' = commits st)"
  proof cases
    case a
    then show ?thesis using after_commit_frame [OF a(1)] by simp
  next
    case b
    then show ?thesis by simp
  qed
  then show "attempted st' = attempted st"
    "migrationsRan st' = (if out = None then migrationsRan st @ [m] else migrationsRan st)"
    "m \<in> set (instanceMigrations st')"
    "\<not> willApply opts \<Longrightarrow> commits st' = commits st"
    by simp_all
qed

lemma run_unit_dry:
  "dryRun opts \<Longrightarrow> run_unit e opts m st = (st', out) \<Longrightarrow> st' = st"
  by (auto simp: run_unit_def split: if_splits)

lemma run_unit_exec:
  assumes "\<not> dryRun opts" "target e m \<noteq> Unreadable" "not_vetoed e opts m"
  shows "run_unit e opts m st =
     (case execute_unit m (target e m) of
        None \<Rightarrow> commit e opts m (st\<lparr>attempted := attempted st @ [m]\<rparr>)
      | Some err \<Rightarrow>
          (case onFailure (lifeCycleModule e) of
             None \<Rightarrow> (st\<lparr>attempted := attempted st @ [m]\<rparr>, Some err)
           | Some hook \<Rightarrow>
               (case hook m err of
                  Throws \<Rightarrow> (st\<lparr>attempted := attempted st @ [m]\<rparr>, Some (HookThrew ''onFailure''))
                | Returns u \<Rightarrow> commit e opts m (st\<lparr>attempted := attempted st @ [m]\<rparr>))))"
  using assms
  by (simp add: run_unit_def not_vetoed_def Let_def split: option.splits outcome.splits)

lemma run_unit_not_exec:
  assumes "\<not> dryRun opts" "\<not> (target e m \<noteq> Unreadable \<and> not_vetoed e opts m)"
  shows "(\<exists>err. run_unit e opts m st = (st, Some err)) \<or> run_unit e opts m st = commit e opts m st"
  using assms
  by (auto simp: run_unit_def not_vetoed_def Let_def split: option.splits outcome.splits)

lemma run_unit_cases:
  assumes "run_unit e opts m st = (st', out)" "\<not> dryRun opts"
  shows "(st' = st \<and> out \<noteq> None)
       \<or> (st' = st\<lparr>attempted := attempted st @ [m]\<rparr> \<and> out \<noteq> None \<and> not_vetoed e opts m)
       \<or> (commit e opts m st = (st', out) \<and> \<not> not_vetoed e opts m)
       \<or> (commit e opts m (st\<lparr>attempted := attempted st @ [m]\<rparr>) = (st', out) \<and> not_vetoed e opts m)"
proof (cases "target e m \<noteq> Unreadable \<and> not_vetoed e opts m")
  case True
  then have t: "target e m \<noteq> Unreadable" and nv: "not_vetoed e opts m" by simp_all
  note ex = run_unit_exec [OF assms(2) t nv, of st]
  show ?thesis
  proof (cases "execute_unit m (target e m)")
    case None
    then show ?thesis using ex assms(1) nv by simp
  next
    case (Some err)
    note se = this
    show ?thesis
    proof (cases "onFailure (lifeCycleModule e)")
      case None
      then show ?thesis using ex assms(1) nv se by auto
    next
      case (Some hook)
      then show ?thesis using ex assms(1) nv se by (cases "hook m err") auto
    qed
  qed
next
  case False
  have "\<not> not_vetoed e opts m \<or> target e m = Unreadable" using False by blast
  moreover have "target e m = Unreadable \<Longrightarrow> st' = st \<and> out \<noteq> None"
    using assms(1) by (auto simp: run_unit_def)
  ultimately show ?thesis
    using run_unit_not_exec [OF assms(2) False, of st] assms(1) by auto
qed

lemma run_unit_attempted:
  assumes "run_unit e opts m st = (st', out)" "\<not> dryRun opts"
  shows "attempted st' = attempted st \<or> (not_vetoed e opts m \<and> attempted st' = attempted st @ [m])"
    "out = None \<Longrightarrow> attempted st' = attempted st @ (if not_vetoed e opts m then [m] else [])"
    "out = None \<Longrightarrow> migrationsRan st' = migrationsRan st @ [m]"
proof -
  let ?st1 = "st\<lparr>attempted := attempted st @ [m]\<rparr>"
  from run_unit_cases [OF assms]
  consider (stop) "st' = st" "out \<noteq> None"
    | (fail) "st' = ?st1" "out \<noteq> None" "not_vetoed e opts m"
    | (skip) "commit e opts m st = (st', out)" "\<not> not_vetoed e opts m"
    | (run) "commit e opts m ?st1 = (st', out)" "not_vetoed e opts m"
    by blast
  then have "(attempted st' = attempted st \<or> (not_vetoed e opts m \<and> attempted st' = attempted st @ [m]))
    \<and> (out = None \<longrightarrow> attempted st' = attempted st @ (if not_vetoed e opts m then [m] else []))
    \<and> (out = None \<longrightarrow> migrationsRan st' = migrationsRan st @ [m])"
  proof cases
    case stop
    then show ?thesis by simp
  next
    case fail
    then show ?thesis by simp
  next
    case skip
    then show ?thesis using commit_frame(1,2) [OF skip(1)] by simp
  next
    case run
    then show ?thesis using commit_frame(1,2) [OF run(1)] by simp
  qed
  then show "attempted st' = attempted st \<or> (not_vetoed e opts m \<and> attempted st' = attempted st @ [m])"
    "out = None \<Longrightarrow> attempted st' = attempted st @ (if not_vetoed e opts m then [m] else [])"
    "out = None \<Longrightarrow> migrationsRan st' = migrationsRan st @ [m]"
    by simp_all
qed

lemma run_units_dry:
  "dryRun opts \<Longrightarrow> run_units e opts ms st = (st', out) \<Longrightarrow> st' = st"
proof (induction ms arbitrary: st)
  case Nil
  then show ?case by simp
next
  case (Cons m ms)
  obtain st1 o1 where u: "run_unit e opts m st = (st1, o1)"
    by (cases "run_unit e opts m st")
  have "st1 = st" using run_unit_dry [OF Cons.prems(1) u] .
  then show ?case
    using Cons u by (cases o1) auto
qed

lemma run_units_attempted:
  assumes "run_units e opts ms st = (st', out)" "\<not> dryRun opts"
  shows "(\<exists>n. attempted st' = attempted st @ filter (not_vetoed e opts) (take n ms))
       \<and> (out = None \<longrightarrow> attempted st' = attempted st @ filter (not_vetoed e opts) ms
                          \<and> migrationsRan st' = migrationsRan st @ ms)"
  using assms(1)
proof (induction ms arbitrary: st)
  case Nil
  then show ?case by simp
next
  case (Cons m ms)
  obtain st1 o1 where u: "run_unit e opts m st = (st1, o1)"
    by (cases "run_unit e opts m st")
  note ua = run_unit_attempted [OF u assms(2)]
  show ?case
  proof (cases o1)
    case None
    then have r: "run_units e opts ms st1 = (st', out)"
      using Cons.prems u by simp
    from Cons.IH [OF r] obtain n where
      n: "attempted st' = attempted st1 @ filter (not_vetoed e opts) (take n ms)"
      and fin: "out = None \<longrightarrow> attempted st' = attempted st1 @ filter (not_vetoed e opts) ms
                          \<and> migrationsRan st' = migrationsRan st1 @ ms"
      by blast
    have "attempted st' = attempted st @ filter (not_vetoed e opts) (take (Suc n) (m # ms))"
      using n ua(2) None by simp
    moreover have "out = None \<longrightarrow> attempted st' = attempted st @ filter (not_vetoed e opts) (m # ms)
                          \<and> migrationsRan st' = migrationsRan st @ (m # ms)"
      using fin ua(2,3) None by simp
    ultimately show ?thesis by blast
  next
    case (Some err)
    then have s: "st' = st1" "out = Some err"
      using Cons.prems u by simp_all
    from ua(1) have "attempted st1 = attempted st @ filter (not_vetoed e opts) (take 0 (m # ms))
                   \<or> attempted st1 = attempted st @ filter (not_vetoed e opts) (take (Suc 0) (m # ms))"
      by auto
    then show ?thesis using s by blast
  qed
qed

subsection \<open>Planning and order of execution\<close>

text \<open>
  C2. For a run that reaches planning with the instance state \<open>s\<close>, the pending list is
  the catalog without the migrations \<open>s\<close> lists, in catalog order. The migrations whose
  execution the engine enters are, in that order, the pending ones the \<open>beforeEach\<close> hook
  does not veto, up to the point where the run stops; a run that completes without error
  and is not a dry run enters all of them and counts every pending migration as run; a
  dry run enters none and writes nothing. With catalog \<open>0001-a\<close>, \<open>0002-b\<close> and the instance
  listing \<open>0001-a\<close>, exactly \<open>0002-b\<close> is executed and committed, and the instance then
  lists \<open>0001-a,0002-b\<close>.
\<close>

theorem pending_units_in_catalog_order:
  assumes "migrateInstance e clientId opts r = (final, out)"
    and "listing e = Some entries"
    and "state_check e clientId opts (start_state r) = (st1, Inr s)"
  shows "migrationsToApply (collectMigrations (re_match e) (localeCompare e) entries (exclude opts)) (migrations s)
           = filter (\<lambda>m. m \<notin> set (migrations s))
               (collectMigrations (re_match e) (localeCompare e) entries (exclude opts))
       \<and> (\<exists>n. attempted final =
                filter (not_vetoed e opts)
                  (take n (migrationsToApply
                     (collectMigrations (re_match e) (localeCompare e) entries (exclude opts)) (migrations s))))
       \<and> (out = None \<and> \<not> dryRun opts \<longrightarrow>
             attempted final =
               filter (not_vetoed e opts)
                 (migrationsToApply
                    (collectMigrations (re_match e) (localeCompare e) entries (exclude opts)) (migrations s))
           \<and> migrationsRan final =
               migrationsToApply
                 (collectMigrations (re_match e) (localeCompare e) entries (exclude opts)) (migrations s))
       \<and> (dryRun opts \<longrightarrow> attempted final = [] \<and> commits final = [])"
proof -
  let ?pending = "migrationsToApply (collectMigrations (re_match e) (localeCompare e) entries (exclude opts)) (migrations s)"
  have fr: "attempted st1 = []" "migrationsRan st1 = []" "commits st1 = []"
    using state_check_frame [OF assms(3)] by (simp_all add: start_state_def)
  have p: "?pending = filter (\<lambda>m. m \<notin> set (migrations s))
               (collectMigrations (re_match e) (localeCompare e) entries (exclude opts))"
    by (simp add: migrationsToApply_def)
  from migrateInstance_cases [OF assms(1)]
  have "(\<exists>n. attempted final = filter (not_vetoed e opts) (take n ?pending))
       \<and> (out = None \<and> \<not> dryRun opts \<longrightarrow>
             attempted final = filter (not_vetoed e opts) ?pending \<and> migrationsRan final = ?pending)
       \<and> (dryRun opts \<longrightarrow> attempted final = [] \<and> commits final = [])"
  proof
    assume a: "out \<noteq> None \<and> commits final = [] \<and> attempted final = [] \<and> migrationsRan final = []"
    then have "attempted final = filter (not_vetoed e opts) (take 0 ?pending)" by simp
    then show ?thesis using a by blast
  next
    assume "\<exists>entries st1 s o3.
             listing e = Some entries
           \<and> state_check e clientId opts (start_state r) = (st1, Inr s)
           \<and> run_units e opts
                 (migrationsToApply (collectMigrations (re_match e) (localeCompare e) entries (exclude opts))
                    (migrations s))
                 (st1\<lparr>instanceMigrations := migrations s\<rparr>) = (final, o3)
           \<and> (o3 \<noteq> None \<longrightarrow> out = o3)
           \<and> (out = None \<longrightarrow> o3 = None)"
    then obtain o3 where ru: "run_units e opts ?pending (st1\<lparr>instanceMigrations := migrations s\<rparr>) = (final, o3)"
      and o: "out = None \<longrightarrow> o3 = None"
      using assms(2,3) by auto
    show ?thesis
    proof (cases "dryRun opts")
      case True
      then have "final = st1\<lparr>instanceMigrations := migrations s\<rparr>"
        using run_units_dry [OF True ru] by simp
      then have "attempted final = []" "commits final = []"
        using fr by simp_all
      moreover have "attempted final = filter (not_vetoed e opts) (take 0 ?pending)"
        using \<open>attempted final = []\<close> by simp
      ultimately show ?thesis using True by blast
    next
      case False
      from run_units_attempted [OF ru False] show ?thesis
        using False fr o by auto
    qed
  qed
  with p show ?thesis by blast
qed

theorem pending_units_in_catalog_order_witness:
  "collectMigrations (re_match two_unit_env) (localeCompare two_unit_env)
       [\<lparr>name = ''0002-b'', isDirectory = True\<rparr>, \<lparr>name = ''setup.js'', isDirectory = False\<rparr>,
        \<lparr>name = ''0001-a'', isDirectory = True\<rparr>] (exclude default_options)
     = [''0001-a'', ''0002-b'']
   \<and> snd (migrateInstance two_unit_env ''client'' default_options (bootstrapped_remote ''0001-a'')) = None
   \<and> attempted (fst (migrateInstance two_unit_env ''client'' default_options (bootstrapped_remote ''0001-a'')))
       = [''0002-b'']
   \<and> migrationsRan (fst (migrateInstance two_unit_env ''client'' default_options (bootstrapped_remote ''0001-a'')))
       = [''0002-b'']
   \<and> map written (commits (fst (migrateInstance two_unit_env ''client'' default_options (bootstrapped_remote ''0001-a''))))
       = [[''0001-a'', ''0002-b'']]
   \<and> c_b2cToolkitMigrations
        (inst (fst (migrateInstance two_unit_env ''client'' default_options (bootstrapped_remote ''0001-a''))))
       = Some ''0001-a,0002-b''"
proof -
  let ?r = "bootstrapped_remote ''0001-a''"
  let ?run = "migrateInstance two_unit_env ''client'' default_options ?r"
  let ?entries = "[\<lparr>name = ''0002-b'', isDirectory = True\<rparr>, \<lparr>name = ''setup.js'', isDirectory = False\<rparr>,
        \<lparr>name = ''0001-a'', isDirectory = True\<rparr>]"
  let ?s = "\<lparr>version = Some 7, migrations = [''0001-a''],
             clients = [''client'' \<mapsto> Some 7], toolkitVars = Map.empty\<rparr>"
  have l: "listing two_unit_env = Some ?entries"
    by (simp add: two_unit_env_def)
  have sc: "state_check two_unit_env ''client'' default_options (start_state ?r) = (start_state ?r, Inr ?s)"
    by (simp add: state_check_def start_state_def bootstrapped_remote_def getInstanceState_def
          isMigrationBootstrapRequired_def B2C_TOOLKIT_DATA_VERSION_def two_unit_env_def no_hooks_def
          default_options_def)
  have cat: "collectMigrations (re_match two_unit_env) (localeCompare two_unit_env) ?entries
               (exclude default_options) = [''0001-a'', ''0002-b'']"
    by code_simp
  have o: "snd ?run = None"
    by code_simp
  have nd: "\<not> dryRun default_options"
    by (simp add: default_options_def)
  have w: "map written (commits (fst ?run)) = [[''0001-a'', ''0002-b'']]"
    by code_simp
  have raw: "c_b2cToolkitMigrations (inst (fst ?run)) = Some ''0001-a,0002-b''"
    by code_simp
  have nv: "not_vetoed two_unit_env default_options = (\<lambda>m. True)"
    by (rule ext) (simp add: not_vetoed_def two_unit_env_def no_hooks_def)
  have run: "?run = (fst ?run, snd ?run)"
    by simp
  have p: "migrationsToApply [''0001-a'', ''0002-b''] (migrations ?s) = [''0002-b'']"
    by (simp add: migrationsToApply_def)
  note t = pending_units_in_catalog_order [OF run l sc, unfolded cat nv p]
  have "attempted (fst ?run) = [''0002-b''] \<and> migrationsRan (fst ?run) = [''0002-b'']"
    using t o nd by simp
  with cat o w raw show ?thesis by blast
qed

subsection \<open>A migration that fails\<close>

lemma commit_written:
  assumes "willApply opts" "getInstanceState (interfere e m (inst st)) = Inr fresh"
    "patch_status (interfere e m (inst st)) = Ok"
  shows "\<exists>c. commits (fst (commit e opts m st)) = commits st @ [c] \<and> unit_id c = m \<and> m \<in> set (written c)"
proof -
  obtain st' o' where ac: "commit e opts m st = (st', o')"
    by (cases "commit e opts m st")
  note fr = after_commit_frame(3) [OF ac [unfolded commit_applied [OF assms]]]
  show ?thesis
    using fr ac by (cases fresh) auto
qed

lemma failed_execution:
  assumes "\<not> dryRun opts" "target e m \<noteq> Unreadable" "not_vetoed e opts m"
    "execute_unit m (target e m) = Some err"
  shows "(onFailure (lifeCycleModule e) = None \<longrightarrow>
            run_units e opts (m # ms) st = (st\<lparr>attempted := attempted st @ [m]\<rparr>, Some err))
       \<and> (\<forall>hook. onFailure (lifeCycleModule e) = Some hook \<and> hook m err = Throws \<longrightarrow>
            run_units e opts (m # ms) st
              = (st\<lparr>attempted := attempted st @ [m]\<rparr>, Some (HookThrew ''onFailure'')))
       \<and> (\<forall>hook u. onFailure (lifeCycleModule e) = Some hook \<and> hook m err = Returns u \<longrightarrow>
            run_unit e opts m st = commit e opts m (st\<lparr>attempted := attempted st @ [m]\<rparr>)
          \<and> m \<in> set (instanceMigrations (fst (run_unit e opts m st)))
          \<and> (snd (run_unit e opts m st) = None \<longrightarrow>
                run_units e opts (m # ms) st = run_units e opts ms (fst (run_unit e opts m st)))
          \<and> (willApply opts \<and> (\<exists>fresh. getInstanceState (interfere e m (inst st)) = Inr fresh)
                \<and> patch_status (interfere e m (inst st)) = Ok \<longrightarrow>
                (\<exists>c. commits (fst (run_unit e opts m st)) = commits st @ [c]
                      \<and> unit_id c = m \<and> m \<in> set (written c))))"
proof (intro conjI allI impI)
  note ex = run_unit_exec [OF assms(1,2,3), of st, unfolded assms(4)]
  {
    assume "onFailure (lifeCycleModule e) = None"
    then show "run_units e opts (m # ms) st = (st\<lparr>attempted := attempted st @ [m]\<rparr>, Some err)"
      using ex by simp
  }
  {
    fix hook
    assume "onFailure (lifeCycleModule e) = Some hook \<and> hook m err = Throws"
    then show "run_units e opts (m # ms) st
              = (st\<lparr>attempted := attempted st @ [m]\<rparr>, Some (HookThrew ''onFailure''))"
      using ex by simp
  }
  fix hook u
  assume h: "onFailure (lifeCycleModule e) = Some hook \<and> hook m err = Returns u"
  let ?st1 = "st\<lparr>attempted := attempted st @ [m]\<rparr>"
  show eq: "run_unit e opts m st = commit e opts m ?st1"
    using ex h by simp
  obtain st' o' where c: "commit e opts m ?st1 = (st', o')"
    by (cases "commit e opts m ?st1")
  show "m \<in> set (instanceMigrations (fst (run_unit e opts m st)))"
    using commit_frame(3) [OF c] eq c by simp
  {
    assume "snd (run_unit e opts m st) = None"
    then show "run_units e opts (m # ms) st = run_units e opts ms (fst (run_unit e opts m st))"
      by (cases "run_unit e opts m st") simp
  }
  assume a: "willApply opts \<and> (\<exists>fresh. getInstanceState (interfere e m (inst st)) = Inr fresh)
                \<and> patch_status (interfere e m (inst st)) = Ok"
  then obtain fresh where f: "getInstanceState (interfere e m (inst ?st1)) = Inr fresh"
    by auto
  have "\<exists>c. commits (fst (commit e opts m ?st1)) = commits ?st1 @ [c] \<and> unit_id c = m \<and> m \<in> set (written c)"
    using a by (intro commit_written [OF _ f]) simp_all
  then show "\<exists>c. commits (fst (run_unit e opts m st)) = commits st @ [c]
                      \<and> unit_id c = m \<and> m \<in> set (written c)"
    using eq by simp
qed

text \<open>
  C4. When the execution of a pending migration throws (not a dry run, the migration not
  vetoed by \<open>beforeEach\<close>): without an \<open>onFailure\<close> hook the loop stops there with that
  error, and when the hook throws it stops with the hook's error; in both cases the
  state is the one before the migration, with no commit for it and every earlier commit
  as it was. When the hook returns, the pass goes on to the same commit as after a
  successful execution: the migration is pushed on the in-memory list, with \<open>apply\<close> and
  a working read and write it is written to the instance, and if the commit raises
  nothing the loop continues with the next migration.
\<close>

theorem execution_failure_handling:
  assumes "\<not> dryRun opts" "target e m \<noteq> Unreadable" "not_vetoed e opts m"
    "execute_unit m (target e m) = Some err"
  shows "(onFailure (lifeCycleModule e) = None \<longrightarrow>
            run_units e opts (m # ms) st = (st\<lparr>attempted := attempted st @ [m]\<rparr>, Some err))
       \<and> (\<forall>hook. onFailure (lifeCycleModule e) = Some hook \<and> hook m err = Throws \<longrightarrow>
            run_units e opts (m # ms) st
              = (st\<lparr>attempted := attempted st @ [m]\<rparr>, Some (HookThrew ''onFailure'')))
       \<and> (\<forall>hook u. onFailure (lifeCycleModule e) = Some hook \<and> hook m err = Returns u \<longrightarrow>
            run_unit e opts m st = commit e opts m (st\<lparr>attempted := attempted st @ [m]\<rparr>)
          \<and> m \<in> set (instanceMigrations (fst (run_unit e opts m st)))
          \<and> (snd (run_unit e opts m st) = None \<longrightarrow>
                run_units e opts (m # ms) st = run_units e opts ms (fst (run_unit e opts m st)))
          \<and> (willApply opts \<and> (\<exists>fresh. getInstanceState (interfere e m (inst st)) = Inr fresh)
                \<and> patch_status (interfere e m (inst st)) = Ok \<longrightarrow>
                (\<exists>c. commits (fst (run_unit e opts m st)) = commits st @ [c]
                      \<and> unit_id c = m \<and> m \<in> set (written c))))"
  using assms by (rule failed_execution)

theorem execution_failure_handling_witness:
  "run_units failing_env default_options [''0003-c.js''] (start_state (bootstrapped_remote ''''))
     = ((start_state (bootstrapped_remote ''''))
          \<lparr>attempted := attempted (start_state (bootstrapped_remote '''')) @ [''0003-c.js'']\<rparr>,
        Some (ExecutionFailed ''0003-c.js''))
   \<and> snd (migrateInstance failing_env ''client'' default_options (bootstrapped_remote ''''))
       = Some (ExecutionFailed ''0003-c.js'')
   \<and> c_b2cToolkitMigrations
        (inst (fst (migrateInstance failing_env ''client'' default_options (bootstrapped_remote ''''))))
       = Some ''0001-a,0002-b''
   \<and> run_unit (failing_env\<lparr>lifeCycleModule := forgiving_hooks\<rparr>) default_options ''0003-c.js''
        (start_state (bootstrapped_remote ''''))
       = commit (failing_env\<lparr>lifeCycleModule := forgiving_hooks\<rparr>) default_options ''0003-c.js''
          ((start_state (bootstrapped_remote ''''))
             \<lparr>attempted := attempted (start_state (bootstrapped_remote '''')) @ [''0003-c.js'']\<rparr>)
   \<and> snd (migrateInstance (failing_env\<lparr>lifeCycleModule := forgiving_hooks\<rparr>) ''client'' default_options
             (bootstrapped_remote '''')) = None
   \<and> c_b2cToolkitMigrations
        (inst (fst (migrateInstance (failing_env\<lparr>lifeCycleModule := forgiving_hooks\<rparr>) ''client''
                      default_options (bootstrapped_remote ''''))))
       = Some ''0001-a,0002-b,0003-c.js''"
proof -
  let ?st = "start_state (bootstrapped_remote '''')"
  let ?e' = "failing_env\<lparr>lifeCycleModule := forgiving_hooks\<rparr>"
  have nd: "\<not> dryRun default_options"
    by (simp add: default_options_def)
  have t: "target failing_env ''0003-c.js'' \<noteq> Unreadable" "target ?e' ''0003-c.js'' \<noteq> Unreadable"
    by (simp_all add: failing_env_def)
  have nv: "not_vetoed failing_env default_options ''0003-c.js''"
      "not_vetoed ?e' default_options ''0003-c.js''"
    by (simp_all add: not_vetoed_def failing_env_def no_hooks_def forgiving_hooks_def)
  have x: "execute_unit ''0003-c.js'' (target failing_env ''0003-c.js'') = Some (ExecutionFailed ''0003-c.js'')"
      "execute_unit ''0003-c.js'' (target ?e' ''0003-c.js'') = Some (ExecutionFailed ''0003-c.js'')"
    by (simp_all add: execute_unit_def failing_env_def)
  have nh: "onFailure (lifeCycleModule failing_env) = None"
    by (simp add: failing_env_def no_hooks_def)
  have h: "onFailure (lifeCycleModule ?e') = Some (\<lambda>m err. Returns ())
             \<and> (\<lambda>m err. Returns ()) ''0003-c.js'' (ExecutionFailed ''0003-c.js'') = Returns ()"
    by (simp add: forgiving_hooks_def)
  have a: "run_units failing_env default_options [''0003-c.js''] ?st
     = (?st\<lparr>attempted := attempted ?st @ [''0003-c.js'']\<rparr>, Some (ExecutionFailed ''0003-c.js''))"
    using execution_failure_handling [OF nd t(1) nv(1) x(1), of "[]" ?st] nh by blast
  have b: "run_unit ?e' default_options ''0003-c.js'' ?st
       = commit ?e' default_options ''0003-c.js'' (?st\<lparr>attempted := attempted ?st @ [''0003-c.js'']\<rparr>)"
    using execution_failure_handling [OF nd t(2) nv(2) x(2), of "[]" ?st] h by blast
  have c: "snd (migrateInstance failing_env ''client'' default_options (bootstrapped_remote ''''))
       = Some (ExecutionFailed ''0003-c.js'')"
    by code_simp
  have d: "c_b2cToolkitMigrations
        (inst (fst (migrateInstance failing_env ''client'' default_options (bootstrapped_remote ''''))))
       = Some ''0001-a,0002-b''"
    by code_simp
  have f: "snd (migrateInstance ?e' ''client'' default_options (bootstrapped_remote '''')) = None"
    by code_simp
  have g: "c_b2cToolkitMigrations
        (inst (fst (migrateInstance ?e' ''client'' default_options (bootstrapped_remote ''''))))
       = Some ''0001-a,0002-b,0003-c.js''"
    by code_simp
  from a b c d f g show ?thesis by blast
qed

text \<open>
  C3 (as amended). A script migration whose module exports no function makes the
  \<open>try\<close> block throw (not a dry run, the migration not vetoed by \<open>beforeEach\<close>). Without an
  \<open>onFailure\<close> hook the run stops with that error and the migration is not committed;
  when the hook throws the run stops as well. When the hook returns, the error counts
  as handled like any other and the migration is committed.
\<close>

theorem invalid_unit_handling:
  assumes "\<not> dryRun opts" "target e m = ScriptFile ExportsOther" "not_vetoed e opts m"
  shows "(onFailure (lifeCycleModule e) = None \<longrightarrow>
            run_units e opts (m # ms) st
              = (st\<lparr>attempted := attempted st @ [m]\<rparr>, Some (NotAFunction m)))
       \<and> (\<forall>hook. onFailure (lifeCycleModule e) = Some hook \<and> hook m (NotAFunction m) = Throws \<longrightarrow>
            run_units e opts (m # ms) st
              = (st\<lparr>attempted := attempted st @ [m]\<rparr>, Some (HookThrew ''onFailure'')))
       \<and> (\<forall>hook u. onFailure (lifeCycleModule e) = Some hook \<and> hook m (NotAFunction m) = Returns u \<longrightarrow>
            run_unit e opts m st = commit e opts m (st\<lparr>attempted := attempted st @ [m]\<rparr>)
          \<and> m \<in> set (instanceMigrations (fst (run_unit e opts m st))))"
proof -
  have t: "target e m \<noteq> Unreadable" using assms(2) by simp
  have x: "execute_unit m (target e m) = Some (NotAFunction m)"
    using assms(2) by (simp add: execute_unit_def)
  show ?thesis
    using failed_execution [OF assms(1) t assms(3) x, of ms st] by blast
qed

theorem invalid_unit_handling_witness:
  "run_units (invalid_unit_env no_hooks) default_options [''0001-bad.js''] (start_state (bootstrapped_remote ''''))
     = ((start_state (bootstrapped_remote ''''))
          \<lparr>attempted := attempted (start_state (bootstrapped_remote '''')) @ [''0001-bad.js'']\<rparr>,
        Some (NotAFunction ''0001-bad.js''))
   \<and> snd (migrateInstance (invalid_unit_env no_hooks) ''client'' default_options (bootstrapped_remote ''''))
       = Some (NotAFunction ''0001-bad.js'')
   \<and> commits (fst (migrateInstance (invalid_unit_env no_hooks) ''client'' default_options
                      (bootstrapped_remote ''''))) = []
   \<and> run_unit (invalid_unit_env forgiving_hooks) default_options ''0001-bad.js''
        (start_state (bootstrapped_remote ''''))
       = commit (invalid_unit_env forgiving_hooks) default_options ''0001-bad.js''
          ((start_state (bootstrapped_remote ''''))
             \<lparr>attempted := attempted (start_state (bootstrapped_remote '''')) @ [''0001-bad.js'']\<rparr>)"
proof -
  let ?st = "start_state (bootstrapped_remote '''')"
  have nd: "\<not> dryRun default_options"
    by (simp add: default_options_def)
  have t: "target (invalid_unit_env hooks) ''0001-bad.js'' = ScriptFile ExportsOther" for hooks
    by (simp add: invalid_unit_env_def)
  have nv: "not_vetoed (invalid_unit_env no_hooks) default_options ''0001-bad.js''"
      "not_vetoed (invalid_unit_env forgiving_hooks) default_options ''0001-bad.js''"
    by (simp_all add: not_vetoed_def invalid_unit_env_def no_hooks_def forgiving_hooks_def)
  have nh: "onFailure (lifeCycleModule (invalid_unit_env no_hooks)) = None"
    by (simp add: invalid_unit_env_def no_hooks_def)
  have h: "onFailure (lifeCycleModule (invalid_unit_env forgiving_hooks)) = Some (\<lambda>m err. Returns ())
             \<and> (\<lambda>m err. Returns ()) ''0001-bad.js'' (NotAFunction ''0001-bad.js'') = Returns ()"
    by (simp add: invalid_unit_env_def forgiving_hooks_def)
  have a: "run_units (invalid_unit_env no_hooks) default_options [''0001-bad.js''] ?st
     = (?st\<lparr>attempted := attempted ?st @ [''0001-bad.js'']\<rparr>, Some (NotAFunction ''0001-bad.js''))"
    using invalid_unit_handling [OF nd t nv(1), of "[]" ?st] nh by blast
  have b: "run_unit (invalid_unit_env forgiving_hooks) default_options ''0001-bad.js'' ?st
       = commit (invalid_unit_env forgiving_hooks) default_options ''0001-bad.js''
           (?st\<lparr>attempted := attempted ?st @ [''0001-bad.js'']\<rparr>)"
    using invalid_unit_handling [OF nd t nv(2), of "[]" ?st] h by blast
  have c: "snd (migrateInstance (invalid_unit_env no_hooks) ''client'' default_options (bootstrapped_remote ''''))
       = Some (NotAFunction ''0001-bad.js'')"
    by code_simp
  have d: "commits (fst (migrateInstance (invalid_unit_env no_hooks) ''client'' default_options
                      (bootstrapped_remote ''''))) = []"
    by code_simp
  from a b c d show ?thesis by blast
qed

text \<open>
  The claim as stated fails: with an \<open>onFailure\<close> hook that returns, the run completes
  and the script that exports no function is recorded as applied.
\<close>

theorem invalid_unit_recovered_counterexample:
  "target (invalid_unit_env forgiving_hooks) ''0001-bad.js'' = ScriptFile ExportsOther
   \<and> snd (migrateInstance (invalid_unit_env forgiving_hooks) ''client'' default_options
            (bootstrapped_remote '''')) = None
   \<and> map written (commits (fst (migrateInstance (invalid_unit_env forgiving_hooks) ''client''
                                   default_options (bootstrapped_remote ''''))))
       = [[''0001-bad.js'']]
   \<and> c_b2cToolkitMigrations
        (inst (fst (migrateInstance (invalid_unit_env forgiving_hooks) ''client'' default_options
                      (bootstrapped_remote ''''))))
       = Some ''0001-bad.js''"
  by code_simp

subsection \<open>A data version above the engine's\<close>

text \<open>
  C5 (as amended). When the instance state can be read, its data version is above
  \<open>B2C_TOOLKIT_DATA_VERSION\<close>, \<open>forceBootstrap\<close> is off, no bootstrap is required for the
  client and the \<open>shouldBootstrap\<close> hook (if any) returns false, then \<open>migrateInstance\<close>
  throws the version error at once: no bootstrap, no migration executed, nothing written.
  (The \<open>init\<close> hook and the directory listing come first and must not fail.)
\<close>

theorem version_skew_fails_fast:
  assumes "init (lifeCycleModule e) \<noteq> Some Throws" "listing e = Some entries"
    and "getInstanceState r = Inr (Some s)" "version s = Some v" "v > B2C_TOOLKIT_DATA_VERSION"
    and "\<not> forceBootstrap opts" "\<not> isMigrationBootstrapRequired clientId (Some s)"
    and "case shouldBootstrap (lifeCycleModule e) of None \<Rightarrow> True | Some hook \<Rightarrow> hook s = Returns False"
  shows "migrateInstance e clientId opts r = (start_state r, Some VersionGreater)"
proof -
  have v0: "v \<noteq> 0"
    using assms(5) by (simp add: B2C_TOOLKIT_DATA_VERSION_def)
  have "state_check e clientId opts (start_state r) = (start_state r, Inl VersionGreater)"
    using assms(3-8) v0
    by (simp add: state_check_def start_state_def Let_def split: option.splits outcome.splits)
  then show ?thesis
    using assms(1,2) by (simp add: migrateInstance_def Let_def)
qed

theorem version_skew_fails_fast_witness:
  "migrateInstance two_unit_env ''client'' default_options (newer_remote ''0001-a'')
     = (start_state (newer_remote ''0001-a''), Some VersionGreater)
   \<and> bootstraps (start_state (newer_remote ''0001-a'')) = 0
   \<and> commits (start_state (newer_remote ''0001-a'')) = []
   \<and> attempted (start_state (newer_remote ''0001-a'')) = []"
proof -
  let ?s = "\<lparr>version = Some 8, migrations = [''0001-a''],
             clients = [''client'' \<mapsto> Some 8], toolkitVars = Map.empty\<rparr>"
  have i: "init (lifeCycleModule two_unit_env) \<noteq> Some Throws"
    by (simp add: two_unit_env_def no_hooks_def)
  have l: "listing two_unit_env = Some [\<lparr>name = ''0002-b'', isDirectory = True\<rparr>,
                      \<lparr>name = ''setup.js'', isDirectory = False\<rparr>,
                      \<lparr>name = ''0001-a'', isDirectory = True\<rparr>]"
    by (simp add: two_unit_env_def)
  have g: "getInstanceState (newer_remote ''0001-a'') = Inr (Some ?s)"
    by (simp add: getInstanceState_def newer_remote_def)
  have v: "version ?s = Some 8" "(8::int) > B2C_TOOLKIT_DATA_VERSION"
    by (simp_all add: B2C_TOOLKIT_DATA_VERSION_def)
  have f: "\<not> forceBootstrap default_options"
    by (simp add: default_options_def)
  have b: "\<not> isMigrationBootstrapRequired ''client'' (Some ?s)"
    by (simp add: isMigrationBootstrapRequired_def B2C_TOOLKIT_DATA_VERSION_def)
  have h: "case shouldBootstrap (lifeCycleModule two_unit_env) of
             None \<Rightarrow> True | Some hook \<Rightarrow> hook ?s = Returns False"
    by (simp add: two_unit_env_def no_hooks_def)
  show ?thesis
    using version_skew_fails_fast [OF i l g v f b h]
    by (simp add: start_state_def)
qed

text \<open>
  The claim as stated fails: with \<open>forceBootstrap\<close> the second branch of lines 122 to 133
  is taken, the bootstrap runs against the newer schema, sets the data version to 7,
  and the pending migration is executed.
\<close>

theorem forced_bootstrap_counterexample:
  "c_b2cToolkitDataVersion (newer_remote ''0001-a'') = Some 8
   \<and> B2C_TOOLKIT_DATA_VERSION < 8
   \<and> snd (migrateInstance two_unit_env ''client'' (default_options\<lparr>forceBootstrap := True\<rparr>)
            (newer_remote ''0001-a'')) = None
   \<and> bootstraps (fst (migrateInstance two_unit_env ''client'' (default_options\<lparr>forceBootstrap := True\<rparr>)
                        (newer_remote ''0001-a''))) = 1
   \<and> attempted (fst (migrateInstance two_unit_env ''client'' (default_options\<lparr>forceBootstrap := True\<rparr>)
                        (newer_remote ''0001-a''))) = [''0002-b'']
   \<and> c_b2cToolkitDataVersion
        (inst (fst (migrateInstance two_unit_env ''client'' (default_options\<lparr>forceBootstrap := True\<rparr>)
                      (newer_remote ''0001-a'')))) = Some 7"
  by code_simp

end
